theory Spec2Isabelle
  imports Complex_Main "HOL-Library.Word" "HOL-Library.Sublist"
begin

unbundle bit_operations_syntax

section \<open>JavaScript strings and numbers\<close>

text \<open>
  A JavaScript string is a sequence of UTF-16 code units; \<open>length\<close>, \<open>substring\<close> and
  string equality all work on code units. The bullet of \<open>maskApiKey\<close> (U+2022) is one
  code unit and does not fit a byte, so strings are lists of 16-bit words. \<open>js\<close> embeds
  an ASCII literal of the source.
\<close>

type_synonym jschar = "16 word"
type_synonym jsstring = "jschar list"
type_synonym byte = "8 word"

definition js :: "string \<Rightarrow> jsstring" where
  "js s = map (\<lambda>c. of_nat (of_char c)) s"

text \<open>\<open>String.prototype.substring(start, end)\<close>: both indices are clamped to
  \<open>[0, length]\<close> and swapped when \<open>start > end\<close>. With one argument \<open>end\<close> is the
  length.\<close>

definition js_substring :: "jsstring \<Rightarrow> int \<Rightarrow> int \<Rightarrow> jsstring" where
  "js_substring s start end =
     (let len = int (length s);
          finalStart = min (max start 0) len;
          finalEnd = min (max end 0) len;
          from = min finalStart finalEnd;
          to = max finalStart finalEnd
      in take (nat (to - from)) (drop (nat from) s))"

definition js_substring_from :: "jsstring \<Rightarrow> int \<Rightarrow> jsstring" where
  "js_substring_from s start = js_substring s start (int (length s))"

definition js_repeat :: "jsstring \<Rightarrow> nat \<Rightarrow> jsstring" where
  "js_repeat s n = concat (replicate n s)"

text \<open>Decimal digits of a non-negative integer.\<close>

definition digit_char :: "nat \<Rightarrow> jschar" where
  "digit_char d = of_nat (48 + d)"

function nat_to_string :: "nat \<Rightarrow> jsstring" where
  "nat_to_string n =
     (if n < 10 then [digit_char n]
      else nat_to_string (n div 10) @ [digit_char (n mod 10)])"
  by pat_completeness auto
termination
  by (relation "measure id") auto

declare nat_to_string.simps [simp del]

text \<open>\<open>x.toFixed(1)\<close> for \<open>x = size / 1024 / 1024\<close>. Dividing an integer below
  \<open>2^53\<close> by a power of two is exact in binary floating point, and \<open>toFixed(1)\<close>
  picks the integer \<open>n\<close> with \<open>n / 10\<close> nearest to \<open>x\<close>, the larger one on a tie:
  \<open>n = \<lfloor>10 x + 1/2\<rfloor>\<close>. The result is \<open>n\<close> with a point before its last digit.\<close>

definition megabytes_toFixed1 :: "nat \<Rightarrow> jsstring" where
  "megabytes_toFixed1 bytes =
     (let n = (10 * bytes + 524288) div 1048576
      in nat_to_string (n div 10) @ js ''.'' @ [digit_char (n mod 10)])"

section \<open>lib/encryption.ts: masking an API key\<close>

definition bullet :: jschar where
  "bullet = 0x2022"

definition maskApiKey :: "jsstring \<Rightarrow> jsstring" where
  "maskApiKey apiKey =
     (if apiKey = [] \<or> length apiKey < 8
      then [bullet, bullet, bullet, bullet, bullet, bullet, bullet, bullet]
      else
        let visibleStart = js_substring apiKey 0 3;
            visibleEnd = js_substring_from apiKey (int (length apiKey) - 4);
            maskedMiddle = js_repeat [bullet] 12
        in visibleStart @ maskedMiddle @ visibleEnd)"

section \<open>lib/deepseek-client.ts: validating a file\<close>

text \<open>The fields of a browser \<open>File\<close> that the code reads.\<close>

record File =
  name :: jsstring
  type :: jsstring
  size_f :: nat

record ValidationResult =
  valid :: bool
  v_error :: "jsstring option"

definition MAX_SIZE :: nat where
  "MAX_SIZE = 10 * 1024 * 1024"

definition ACCEPTED_TYPES :: "jsstring list" where
  "ACCEPTED_TYPES =
     [js ''image/jpeg'', js ''image/png'', js ''image/webp'', js ''application/pdf'']"

definition validateFile :: "File \<Rightarrow> ValidationResult" where
  "validateFile file =
     (if \<not> List.member ACCEPTED_TYPES (type file) then
        \<lparr>valid = False,
         v_error = Some (name file @ js '': Format not supported. Use JPG, PNG, WebP, or PDF.'')\<rparr>
      else if size_f file > MAX_SIZE then
        \<lparr>valid = False,
         v_error = Some (name file @ js '': File exceeds 10MB limit ('' @
                         megabytes_toFixed1 (size_f file) @ js ''MB).'')\<rparr>
      else \<lparr>valid = True, v_error = None\<rparr>)"

section \<open>JavaScript values\<close>

text \<open>
  What \<open>response.json()\<close> yields is untyped: a JSON value, read with property access,
  optional chaining and \<open>||\<close>. \<open>JUndefined\<close> is the result of reading a property that
  is not there; it never occurs inside a parsed JSON document.
\<close>

datatype jsval =
    JUndefined
  | JNull
  | JBool bool
  | JNum rat
  | JStr jsstring
  | JArr "jsval list"
  | JObj "(jsstring \<times> jsval) list"

text \<open>A thrown value: an instance of \<open>Error\<close> with its \<open>name\<close> and \<open>message\<close>, or
  anything else.\<close>

datatype thrown = JsError jsstring jsstring | NonError

fun truthy :: "jsval \<Rightarrow> bool" where
  "truthy JUndefined = False"
| "truthy JNull = False"
| "truthy (JBool b) = b"
| "truthy (JNum r) = (r \<noteq> 0)"
| "truthy (JStr s) = (s \<noteq> [])"
| "truthy (JArr xs) = True"
| "truthy (JObj kvs) = True"

definition js_or :: "jsval \<Rightarrow> jsval \<Rightarrow> jsval" where
  "js_or a b = (if truthy a then a else b)"

definition nullish :: "jsval \<Rightarrow> bool" where
  "nullish v = (v = JUndefined \<or> v = JNull)"

text \<open>\<open>v.k\<close> for a value that is neither \<open>null\<close> nor \<open>undefined\<close>, and for a key that
  no prototype defines (the keys the code reads are \<open>error\<close>, \<open>message\<close>, \<open>choices\<close>,
  \<open>content\<close>, \<open>usage\<close>, \<open>total_tokens\<close>). In an object parsed from JSON the last of
  several equal keys wins.\<close>

fun own_prop :: "jsval \<Rightarrow> jsstring \<Rightarrow> jsval" where
  "own_prop (JObj kvs) k = (case map_of (rev kvs) k of Some v \<Rightarrow> v | None \<Rightarrow> JUndefined)"
| "own_prop v k = JUndefined"

text \<open>\<open>v.k\<close>: reading a property of \<open>null\<close> or \<open>undefined\<close> throws a \<open>TypeError\<close>,
  whose message is the engine's.\<close>

definition get_prop :: "jsstring \<Rightarrow> jsval \<Rightarrow> jsstring \<Rightarrow> thrown + jsval" where
  "get_prop null_read_message v k =
     (if nullish v then Inl (JsError (js ''TypeError'') null_read_message)
      else Inr (own_prop v k))"

text \<open>\<open>v?.k\<close> and \<open>v?.[0]\<close>.\<close>

definition opt_prop :: "jsval \<Rightarrow> jsstring \<Rightarrow> jsval" where
  "opt_prop v k = (if nullish v then JUndefined else own_prop v k)"

fun index0 :: "jsval \<Rightarrow> jsval" where
  "index0 (JArr xs) = (case xs of [] \<Rightarrow> JUndefined | x # _ \<Rightarrow> x)"
| "index0 (JStr s) = (case s of [] \<Rightarrow> JUndefined | c # _ \<Rightarrow> JStr [c])"
| "index0 (JObj kvs) = own_prop (JObj kvs) (js ''0'')"
| "index0 v = JUndefined"

definition opt_index0 :: "jsval \<Rightarrow> jsval" where
  "opt_index0 v = (if nullish v then JUndefined else index0 v)"

text \<open>\<open>s.includes(pat)\<close>.\<close>

fun js_includes :: "jsstring \<Rightarrow> jsstring \<Rightarrow> bool" where
  "js_includes [] pat = (pat = [])"
| "js_includes (c # cs) pat = (prefix pat (c # cs) \<or> js_includes cs pat)"

text \<open>
  A Number with an integer value, an infinity, or \<open>NaN\<close>. \<open>Finite n\<close> is the double whose
  value is \<open>n\<close>; \<open>-0\<close> and \<open>0\<close> are not told apart (both print as \<open>0\<close>).
\<close>

datatype jsint = NaN | Finite int | PlusInfinity | MinusInfinity

text \<open>
  The Number for a non-negative integer: the nearest double, the one with the even
  significand when two are equally near, and infinity (\<open>None\<close>) from \<open>2^1024\<close> on. A
  double has a significand of 53 bits, so every integer below \<open>2^53\<close> is one; a larger
  integer of \<open>53 + e\<close> bits is rounded to a multiple of \<open>2^e\<close>.
\<close>

fun bit_length :: "nat \<Rightarrow> nat" where
  "bit_length n = (if n = 0 then 0 else Suc (bit_length (n div 2)))"

declare bit_length.simps [simp del]

definition to_double :: "nat \<Rightarrow> nat option" where
  "to_double n =
     (if n < 2 ^ 53 then Some n
      else
        let e = bit_length n - 53;
            q = n div 2 ^ e;
            r = n mod 2 ^ e;
            m = (if 2 ^ (e - 1) < r \<or> (r = 2 ^ (e - 1) \<and> odd q) then q + 1 else q)
        in if 2 ^ 1024 \<le> m * 2 ^ e then None else Some (m * 2 ^ e))"

text \<open>\<open>parseInt(s, 10)\<close>: leading white space is skipped, then an optional sign, then
  the longest run of decimal digits; no digit gives \<open>NaN\<close>. The result is the Number for
  the integer read, with all its digits taken into account.\<close>

definition is_js_whitespace :: "jschar \<Rightarrow> bool" where
  "is_js_whitespace c =
     (c \<in> set [0x9, 0xA, 0xB, 0xC, 0xD, 0x20, 0xA0, 0x1680, 0x2028, 0x2029, 0x202F, 0x205F,
                0x3000, 0xFEFF] \<or> (0x2000 \<le> c \<and> c \<le> 0x200A))"

definition is_digit :: "jschar \<Rightarrow> bool" where
  "is_digit c = (0x30 \<le> c \<and> c \<le> 0x39)"

definition digits_value :: "jsstring \<Rightarrow> nat" where
  "digits_value ds = foldl (\<lambda>acc c. 10 * acc + (unat c - 48)) 0 ds"

definition parseInt10 :: "jsstring \<Rightarrow> jsint" where
  "parseInt10 s =
     (let t = dropWhile is_js_whitespace s;
          negative = (t \<noteq> [] \<and> hd t = 0x2D);
          u = (if t \<noteq> [] \<and> (hd t = 0x2B \<or> hd t = 0x2D) then tl t else t);
          ds = takeWhile is_digit u
      in if ds = [] then NaN
         else (case to_double (digits_value ds) of
                 None \<Rightarrow> if negative then MinusInfinity else PlusInfinity
               | Some v \<Rightarrow> Finite (if negative then - int v else int v)))"

text \<open>
  A number in a template literal (\<open>Number::toString\<close>). The digits printed for a double
  \<open>v\<close> are those of the decimal with the fewest significant digits that rounds to \<open>v\<close>,
  the nearest to \<open>v\<close> when several have that many. An integer below \<open>2^53\<close> is its own
  shortest decimal, since every other integer rounds to another double. For a larger
  \<open>v\<close> of \<open>d\<close> digits, \<open>nearest_decimal v (10^(d - k))\<close> is the candidate with \<open>k\<close>
  significant digits: of the two multiples of \<open>10^(d - k)\<close> around \<open>v\<close>, the nearer one
  among those that round to \<open>v\<close>. A decimal of up to 21 digits is printed in full, a
  longer one with an exponent.
\<close>

definition nearest_decimal :: "nat \<Rightarrow> nat \<Rightarrow> nat list" where
  "nearest_decimal v step =
     (let lo = v div step * step;
          hi = lo + step;
          lo_ok = (to_double lo = Some v);
          hi_ok = (to_double hi = Some v)
      in if lo_ok \<and> hi_ok then
           (if v - lo < hi - v \<or> (v - lo = hi - v \<and> even (lo div step)) then [lo] else [hi])
         else if lo_ok then [lo]
         else if hi_ok then [hi]
         else [])"

definition shortest_decimal :: "nat \<Rightarrow> nat" where
  "shortest_decimal v =
     (if v < 2 ^ 53 then v
      else
        let d = length (nat_to_string v)
        in case concat (map (\<lambda>k. nearest_decimal v (10 ^ (d - k))) [1..<Suc d]) of
             [] \<Rightarrow> v
           | x # _ \<Rightarrow> x)"

definition number_to_string :: "nat \<Rightarrow> jsstring" where
  "number_to_string v =
     (let ds = nat_to_string (shortest_decimal v);
          n = length ds;
          significant = rev (dropWhile (\<lambda>c. c = 0x30) (rev ds))
      in if n \<le> 21 then ds
         else (if length significant = 1 then significant
               else hd significant # js ''.'' @ tl significant)
              @ js ''e+'' @ nat_to_string (n - 1))"

fun jsint_to_string :: "jsint \<Rightarrow> jsstring" where
  "jsint_to_string NaN = js ''NaN''"
| "jsint_to_string PlusInfinity = js ''Infinity''"
| "jsint_to_string MinusInfinity = js ''-Infinity''"
| "jsint_to_string (Finite n) =
     (if n < 0 then js ''-'' @ number_to_string (nat (- n)) else number_to_string (nat n))"

section \<open>lib/deepseek-client.ts: the OCR request\<close>

datatype OCRPromptType = document | general | free | figure

fun OCR_PROMPTS :: "OCRPromptType \<Rightarrow> jsstring" where
  "OCR_PROMPTS document = js ''Convert the document to markdown.''"
| "OCR_PROMPTS general = js ''OCR this image.''"
| "OCR_PROMPTS free = js ''Free OCR.''"
| "OCR_PROMPTS figure = js ''Parse the figure.''"

text \<open>The argument of \<open>fetch\<close>. The body is kept as the object given to
  \<open>JSON.stringify\<close>; its single message has the role \<open>user\<close> and a list of content parts.\<close>

datatype content_part = ImageUrl jsstring | TextPart jsstring

record ChatBody =
  model :: jsstring
  role :: jsstring
  content :: "content_part list"
  temperature :: rat
  max_tokens :: nat
  frequency_penalty :: rat
  presence_penalty :: rat

record OCRRequest =
  url :: jsstring
  http_method :: jsstring
  headers :: "(jsstring \<times> jsstring) list"
  body :: ChatBody

text \<open>A value in a template literal: \<open>undefined\<close> prints as the word.\<close>

definition template_str :: "jsstring option \<Rightarrow> jsstring" where
  "template_str v = (case v of None \<Rightarrow> js ''undefined'' | Some s \<Rightarrow> s)"

definition extractText_request ::
  "jsstring option \<Rightarrow> jsstring \<Rightarrow> jsstring \<Rightarrow> OCRPromptType \<Rightarrow> OCRRequest" where
  "extractText_request imageBase64 apiKey mimeType promptType =
     \<lparr>url = js ''https://api.deepinfra.com/v1/openai/chat/completions'',
      http_method = js ''POST'',
      headers = [(js ''Content-Type'', js ''application/json''),
                 (js ''Authorization'', js ''Bearer '' @ apiKey)],
      body = \<lparr>model = js ''deepseek-ai/DeepSeek-OCR'',
              role = js ''user'',
              content = [ImageUrl (js ''data:'' @ mimeType @ js '';base64,'' @
                                   template_str imageBase64),
                         TextPart (OCR_PROMPTS promptType)],
              temperature = 0,
              max_tokens = 4096,
              frequency_penalty = 1,
              presence_penalty = 1 / 2\<rparr>\<rparr>"

section \<open>lib/deepseek-client.ts: the response and its errors\<close>

text \<open>
  The world outside \<open>extractText\<close>. \<open>fetch\<close> settles after some milliseconds, resolved
  with a response or rejected with a thrown value, or never settles. Of a response the
  code reads the status, the \<open>Retry-After\<close> header (\<open>null\<close> when absent) and the body
  through \<open>response.json()\<close>, which yields a value, throws, or never settles: the
  response is there once the headers are, and the rest of the body may never come.
\<close>

datatype json_outcome = JsonThrows thrown | JsonValue jsval | JsonStalls

record Response =
  http_status :: nat
  retry_after :: "jsstring option"
  json :: json_outcome

datatype fetch_outcome = Resolves nat Response | Rejects nat thrown | NeverSettles

record runtime =
  fetch :: "OCRRequest \<Rightarrow> fetch_outcome"
  null_read_message :: jsstring
  abort_message :: jsstring

datatype OCRErrorType = invalid_key | rate_limit | network | timeout | server | unknown

record OCRError =
  err_type :: OCRErrorType
  message :: jsval
  retryAfter :: "jsint option"

record OCRResponse =
  ocr_text :: jsval
  ocr_tokensUsed :: jsval

record ExtractResult =
  data :: "OCRResponse option"
  error :: "OCRError option"

definition response_ok :: "Response \<Rightarrow> bool" where
  "response_ok r = (200 \<le> http_status r \<and> http_status r \<le> 299)"

text \<open>An \<open>async\<close> function returns a promise; the model gives what the promise settles
  to, and \<open>None\<close> when it never settles, which is the case when an \<open>await\<close> inside the
  function never ends.\<close>

text \<open>The body of the \<open>try\<close> block of \<open>handleErrorResponse\<close>: \<open>Inl\<close> is a throw.\<close>

definition handleErrorResponse_try :: "runtime \<Rightarrow> Response \<Rightarrow> (thrown + OCRError) option" where
  "handleErrorResponse_try rt response =
     (case json response of
        JsonStalls \<Rightarrow> None
      | JsonThrows e \<Rightarrow> Some (Inl e)
      | JsonValue errorData \<Rightarrow>
          Some
          (case get_prop (null_read_message rt) errorData (js ''error'') of
             Inl e \<Rightarrow> Inl e
           | Inr err \<Rightarrow>
               let errorMessage =
                     js_or (opt_prop err (js ''message''))
                       (js_or (own_prop errorData (js ''message'')) (JStr (js ''Unknown error'')))
               in if http_status response = 401 \<or> http_status response = 403 then
                    Inr \<lparr>err_type = invalid_key,
                         message = JStr (js ''Invalid API key. Please update your key in Settings.''),
                         retryAfter = None\<rparr>
                  else if http_status response = 429 then
                    let retryAfter =
                          parseInt10 (case retry_after response of
                                        None \<Rightarrow> js ''5''
                                      | Some h \<Rightarrow> if h = [] then js ''5'' else h)
                    in Inr \<lparr>err_type = rate_limit,
                            message = JStr (js ''Rate limit reached. Please wait '' @
                                            jsint_to_string retryAfter @ js '' seconds.''),
                            retryAfter = Some retryAfter\<rparr>
                  else if http_status response = 500 \<or> http_status response = 502 \<or> http_status response = 503 then
                    Inr \<lparr>err_type = server,
                         message = JStr (js ''DeepInfra server error. Please try again later.''),
                         retryAfter = None\<rparr>
                  else
                    Inr \<lparr>err_type = unknown, message = errorMessage, retryAfter = None\<rparr>))"

definition handleErrorResponse :: "runtime \<Rightarrow> Response \<Rightarrow> OCRError option" where
  "handleErrorResponse rt response =
     (case handleErrorResponse_try rt response of
        None \<Rightarrow> None
      | Some (Inr e) \<Rightarrow> Some e
      | Some (Inl _) \<Rightarrow>
          Some \<lparr>err_type = unknown,
                message = JStr (js ''HTTP '' @ nat_to_string (http_status response) @ js '' error occurred''),
                retryAfter = None\<rparr>)"

fun handleException :: "thrown \<Rightarrow> OCRError" where
  "handleException (JsError ename emessage) =
     (if ename = js ''AbortError'' then
        \<lparr>err_type = timeout,
         message = JStr (js ''Request timed out. Try a smaller file or check your connection.''),
         retryAfter = None\<rparr>
      else if js_includes emessage (js ''fetch'') then
        \<lparr>err_type = network,
         message = JStr (js ''Network error. Please check your internet connection.''),
         retryAfter = None\<rparr>
      else \<lparr>err_type = unknown, message = JStr emessage, retryAfter = None\<rparr>)"
| "handleException NonError =
     \<lparr>err_type = unknown, message = JStr (js ''An unexpected error occurred''),
      retryAfter = None\<rparr>"

text \<open>\<open>await fetch(..., {signal})\<close> under \<open>setTimeout(() => controller.abort(), 60000)\<close>:
  a fetch that has not settled when the timer fires is rejected with an \<open>AbortError\<close>.
  After the \<open>await\<close> the code clears the timer, so nothing ends a read of the body that
  stalls.\<close>

definition TIMEOUT_MS :: nat where
  "TIMEOUT_MS = 60000"

definition await_fetch :: "runtime \<Rightarrow> OCRRequest \<Rightarrow> thrown + Response" where
  "await_fetch rt req =
     (let aborted = Inl (JsError (js ''AbortError'') (abort_message rt))
      in case fetch rt req of
           Resolves ms response \<Rightarrow> if ms < TIMEOUT_MS then Inr response else aborted
         | Rejects ms e \<Rightarrow> if ms < TIMEOUT_MS then Inl e else aborted
         | NeverSettles \<Rightarrow> aborted)"

text \<open>The body of the \<open>try\<close> block of \<open>extractText\<close>, after the request is built.\<close>

definition extractText_try :: "runtime \<Rightarrow> OCRRequest \<Rightarrow> (thrown + ExtractResult) option" where
  "extractText_try rt req =
     (case await_fetch rt req of
        Inl e \<Rightarrow> Some (Inl e)
      | Inr response \<Rightarrow>
          if \<not> response_ok response then
            (case handleErrorResponse rt response of
               None \<Rightarrow> None
             | Some err \<Rightarrow> Some (Inr \<lparr>data = None, error = Some err\<rparr>))
          else
            (case json response of
               JsonStalls \<Rightarrow> None
             | JsonThrows e \<Rightarrow> Some (Inl e)
             | JsonValue d \<Rightarrow>
                 Some
                 (case get_prop (null_read_message rt) d (js ''choices'') of
                    Inl e \<Rightarrow> Inl e
                  | Inr choices \<Rightarrow>
                      let extractedText =
                            js_or (opt_prop (opt_prop (opt_index0 choices) (js ''message''))
                                     (js ''content''))
                              (JStr []);
                          tokens =
                            js_or (opt_prop (own_prop d (js ''usage'')) (js ''total_tokens''))
                              (JNum 0)
                      in Inr \<lparr>data = Some \<lparr>ocr_text = extractedText, ocr_tokensUsed = tokens\<rparr>,
                              error = None\<rparr>)))"

text \<open>\<open>extractText\<close>: the requests it hands to \<open>fetch\<close>, and its result, \<open>None\<close> when
  it never returns.\<close>

definition extractText ::
  "runtime \<Rightarrow> jsstring option \<Rightarrow> jsstring \<Rightarrow> jsstring \<Rightarrow> OCRPromptType \<Rightarrow>
   OCRRequest list \<times> ExtractResult option" where
  "extractText rt imageBase64 apiKey mimeType promptType =
     (let req = extractText_request imageBase64 apiKey mimeType promptType
      in ([req],
          (case extractText_try rt req of
             None \<Rightarrow> None
           | Some (Inr r) \<Rightarrow> Some r
           | Some (Inl e) \<Rightarrow> Some \<lparr>data = None, error = Some (handleException e)\<rparr>)))"

text \<open>The defaults of the parameters: \<open>mimeType = "image/jpeg"\<close>,
  \<open>promptType = "document"\<close>.\<close>

definition extractText2 ::
  "runtime \<Rightarrow> jsstring option \<Rightarrow> jsstring \<Rightarrow> OCRRequest list \<times> ExtractResult option" where
  "extractText2 rt imageBase64 apiKey =
     extractText rt imageBase64 apiKey (js ''image/jpeg'') document"

definition extractText3 ::
  "runtime \<Rightarrow> jsstring option \<Rightarrow> jsstring \<Rightarrow> jsstring \<Rightarrow>
   OCRRequest list \<times> ExtractResult option" where
  "extractText3 rt imageBase64 apiKey mimeType =
     extractText rt imageBase64 apiKey mimeType document"

definition prompt_texts :: "OCRRequest \<Rightarrow> jsstring list" where
  "prompt_texts req = [t. TextPart t \<leftarrow> content (body req)]"

text \<open>Example environments: a server that answers every request after \<open>ms\<close>
  milliseconds with the response \<open>r\<close>, and one that never answers; an error response
  whose body is the JSON object \<open>{}\<close>, one whose body is not JSON, and one whose body
  never ends.\<close>

definition respond :: "nat \<Rightarrow> Response \<Rightarrow> runtime" where
  "respond ms r =
     \<lparr>fetch = (\<lambda>req. Resolves ms r),
      null_read_message = js ''Cannot read properties of null'',
      abort_message = js ''The user aborted a request.''\<rparr>"

definition json_error_response :: "nat \<Rightarrow> jsstring option \<Rightarrow> Response" where
  "json_error_response st h = \<lparr>http_status = st, retry_after = h, json = JsonValue (JObj [])\<rparr>"

definition page_error_response :: "nat \<Rightarrow> Response" where
  "page_error_response st =
     \<lparr>http_status = st, retry_after = None,
      json = JsonThrows (JsError (js ''SyntaxError'') (js ''Unexpected token''))\<rparr>"

definition stalled_response :: "nat \<Rightarrow> Response" where
  "stalled_response st = \<lparr>http_status = st, retry_after = None, json = JsonStalls\<rparr>"

definition silent :: runtime where
  "silent =
     \<lparr>fetch = (\<lambda>req. NeverSettles),
      null_read_message = js ''Cannot read properties of null'',
      abort_message = js ''The user aborted a request.''\<rparr>"

section \<open>components/batch-processor.tsx\<close>

datatype Status = Pending | Processing | Success | Error

text \<open>
  A \<open>FileResult\<close>. \<open>extractedText\<close>, \<open>error\<close> and \<open>tokensUsed\<close> are optional and hold
  what \<open>extractText\<close> returned, so they are JavaScript values with \<open>JUndefined\<close> for an
  absent field. \<open>filename\<close> and \<open>file\<close> (here \<open>file_ref\<close>) are absent only in an object made by spreading
  an array element that is not there.
\<close>

record FileResult =
  filename :: "jsstring option"
  file_ref :: "File option"
  status :: Status
  extractedText :: jsval
  fr_error :: jsval
  tokensUsed :: jsval

text \<open>The initial state \<open>useState(files.map(...))\<close>.\<close>

definition initial_results :: "File list \<Rightarrow> FileResult list" where
  "initial_results files =
     map (\<lambda>f. \<lparr>filename = Some (name f), file_ref = Some f, status = Pending,
                extractedText = JUndefined, fr_error = JUndefined, tokensUsed = JUndefined\<rparr>) files"

text \<open>\<open>{...xs[i], status: st}\<close>: spreading \<open>undefined\<close> adds no field.\<close>

definition spread_status :: "FileResult list \<Rightarrow> nat \<Rightarrow> Status \<Rightarrow> FileResult" where
  "spread_status xs i st =
     (if i < length xs then (xs ! i)\<lparr>status := st\<rparr>
      else \<lparr>filename = None, file_ref = None, status = st,
            extractedText = JUndefined, fr_error = JUndefined, tokensUsed = JUndefined\<rparr>)"

text \<open>\<open>xs[i] = v\<close>. At \<open>i = length xs\<close> the array grows by one. Past that JavaScript
  leaves holes; the loops below write an index only after every smaller one, so that
  case is not reached, and the model fills it with copies of \<open>v\<close>.\<close>

definition array_set :: "'a list \<Rightarrow> nat \<Rightarrow> 'a \<Rightarrow> 'a list" where
  "array_set xs i v =
     (if i < length xs then xs[i := v] else xs @ replicate (i - length xs) v @ [v])"

text \<open>What the component does to the world and to its own state, in order.\<close>

datatype toast =
    FileFailed jsstring jsval
  | FileExtracted jsstring
  | FileProcessingFailed jsstring
  | AllProcessed nat
  | Completed nat int
  | NoFailedFiles
  | RetryCompleted
  | NothingToDownload
  | DownloadedZip nat
  | ZipGenerationFailed

datatype event =
    SetIsProcessing bool
  | SetCurrentIndex nat
  | SetResults "FileResult list"
  | ReadFile nat
  | OcrCall nat OCRRequest
  | Sleep nat
  | Toast toast

text \<open>The world of one run: what the \<open>FileReader\<close> does with the file at index \<open>i\<close>,
  and how the network answers the request made for it.\<close>

datatype read_outcome = ReadError | ReadResult jsstring

record batch_env =
  read_file :: "nat \<Rightarrow> read_outcome"
  runtime_for :: "nat \<Rightarrow> runtime"
  undefined_read_message :: jsstring

text \<open>\<open>s.split(",")[1]\<close>.\<close>

definition split_comma_second :: "jsstring \<Rightarrow> jsstring option" where
  "split_comma_second s =
     (let rest = dropWhile (\<lambda>c. c \<noteq> 0x2C) s
      in if rest = [] then None else Some (takeWhile (\<lambda>c. c \<noteq> 0x2C) (tl rest)))"

text \<open>\<open>fileToBase64(file)\<close>: the promise rejects with \<open>Error("Failed to read file")\<close>
  on a reader error, and with the \<open>TypeError\<close> of \<open>readAsDataURL(undefined)\<close> when there
  is no file.\<close>

definition fileToBase64 ::
  "batch_env \<Rightarrow> nat \<Rightarrow> File option \<Rightarrow> thrown + jsstring option" where
  "fileToBase64 env i f =
     (case f of
        None \<Rightarrow> Inl (JsError (js ''TypeError'') (undefined_read_message env))
      | Some _ \<Rightarrow>
          (case read_file env i of
             ReadError \<Rightarrow> Inl (JsError (js ''Error'') (js ''Failed to read file''))
           | ReadResult dataUrl \<Rightarrow> Inr (split_comma_second dataUrl)))"

text \<open>\<open>error instanceof Error ? error.message : "Unknown error"\<close>.\<close>

fun thrown_message :: "thrown \<Rightarrow> jsval" where
  "thrown_message (JsError ename emessage) = JStr emessage"
| "thrown_message NonError = JStr (js ''Unknown error'')"

text \<open>One iteration of the loop of \<open>processFiles\<close>, for \<open>i < files.length\<close>: the local
  array \<open>updatedResults\<close> and the trace after it, \<open>None\<close> when the iteration never ends
  because \<open>await extractText(...)\<close> does not.\<close>

definition processFiles_step ::
  "batch_env \<Rightarrow> File list \<Rightarrow> jsstring \<Rightarrow> nat \<Rightarrow> FileResult list \<times> event list \<Rightarrow>
   (FileResult list \<times> event list) option" where
  "processFiles_step env files apiKey i st =
     (let updatedResults = fst st;
          tr = snd st @ [SetCurrentIndex i];
          f = files ! i;
          updatedResults = array_set updatedResults i (spread_status updatedResults i Processing);
          tr = tr @ [SetResults updatedResults];
          tr = tr @ [ReadFile i];
          tried =
            (case fileToBase64 env i (Some f) of
               Inl e \<Rightarrow>
                 Some (array_set updatedResults i
                         ((spread_status updatedResults i Error)\<lparr>fr_error := thrown_message e\<rparr>),
                       tr @ [Toast (FileProcessingFailed (name f))])
             | Inr base64 \<Rightarrow>
                 let (reqs, returned) = extractText3 (runtime_for env i) base64 apiKey (type f);
                     tr = tr @ map (OcrCall i) reqs
                 in (case returned of
                       None \<Rightarrow> None
                     | Some res \<Rightarrow>
                         Some
                         (case error res of
                            Some err \<Rightarrow>
                              (array_set updatedResults i
                                 ((spread_status updatedResults i Error)\<lparr>fr_error := message err\<rparr>),
                               tr @ [Toast (FileFailed (name f) (message err))])
                          | None \<Rightarrow>
                              (case data res of
                                 Some d \<Rightarrow>
                                   (array_set updatedResults i
                                      ((spread_status updatedResults i Success)
                                         \<lparr>extractedText := ocr_text d, tokensUsed := ocr_tokensUsed d\<rparr>),
                                    tr @ [Toast (FileExtracted (name f))])
                               | None \<Rightarrow> (updatedResults, tr)))))
      in case tried of
           None \<Rightarrow> None
         | Some (updatedResults, tr) \<Rightarrow>
             let tr = tr @ [SetResults updatedResults];
                 tr = (if int i < int (length files) - 1 then tr @ [Sleep 500] else tr)
             in Some (updatedResults, tr))"

text \<open>The local array \<open>updatedResults\<close> and the trace after the first \<open>k\<close> iterations
  of the loop, \<open>None\<close> when one of them never ends.\<close>

definition processFiles_loop ::
  "batch_env \<Rightarrow> File list \<Rightarrow> jsstring \<Rightarrow> FileResult list \<Rightarrow> nat \<Rightarrow>
   (FileResult list \<times> event list) option" where
  "processFiles_loop env files apiKey results k =
     fold (\<lambda>i st. Option.bind st (processFiles_step env files apiKey i)) [0..<k]
       (Some (results, [SetIsProcessing True]))"

definition processFiles ::
  "batch_env \<Rightarrow> File list \<Rightarrow> jsstring \<Rightarrow> FileResult list \<Rightarrow>
   (FileResult list \<times> event list) option" where
  "processFiles env files apiKey results =
     (case processFiles_loop env files apiKey results (length files) of
        None \<Rightarrow> None
      | Some (updatedResults, tr) \<Rightarrow>
          let tr = tr @ [SetIsProcessing False, SetCurrentIndex (length files)];
              successCount = length (filter (\<lambda>r. status r = Success) updatedResults)
          in Some (updatedResults,
                   tr @ [Toast (if successCount = length files then AllProcessed (length files)
                                else Completed successCount
                                       (int (length files) - int successCount))]))"

text \<open>\<open>files[i]\<close>, \<open>undefined\<close> out of range.\<close>

definition nth_opt :: "'a list \<Rightarrow> nat \<Rightarrow> 'a option" where
  "nth_opt xs i = (if i < length xs then Some (xs ! i) else None)"

text \<open>One iteration of the loop of \<open>retryFailed\<close>. \<open>file.type\<close> is read only after
  \<open>fileToBase64\<close> has succeeded, so the file is there.\<close>

definition retryFailed_step ::
  "batch_env \<Rightarrow> File list \<Rightarrow> jsstring \<Rightarrow> nat \<Rightarrow> FileResult list \<times> event list \<Rightarrow>
   (FileResult list \<times> event list) option" where
  "retryFailed_step env files apiKey i st =
     (let updatedResults = fst st;
          tr = snd st @ [SetCurrentIndex i];
          f = nth_opt files i;
          updatedResults = array_set updatedResults i
             ((spread_status updatedResults i Processing)\<lparr>fr_error := JUndefined\<rparr>);
          tr = tr @ [SetResults updatedResults];
          tr = tr @ [ReadFile i];
          tried =
            (case fileToBase64 env i f of
               Inl e \<Rightarrow>
                 Some (array_set updatedResults i
                         ((spread_status updatedResults i Error)\<lparr>fr_error := thrown_message e\<rparr>),
                       tr)
             | Inr base64 \<Rightarrow>
                 let (reqs, returned) =
                       extractText3 (runtime_for env i) base64 apiKey
                         (case f of Some f' \<Rightarrow> type f' | None \<Rightarrow> []);
                     tr = tr @ map (OcrCall i) reqs
                 in (case returned of
                       None \<Rightarrow> None
                     | Some res \<Rightarrow>
                         Some
                         (case error res of
                            Some err \<Rightarrow>
                              (array_set updatedResults i
                                 ((spread_status updatedResults i Error)\<lparr>fr_error := message err\<rparr>),
                               tr)
                          | None \<Rightarrow>
                              (case data res of
                                 Some d \<Rightarrow>
                                   (array_set updatedResults i
                                      ((spread_status updatedResults i Success)
                                         \<lparr>extractedText := ocr_text d, tokensUsed := ocr_tokensUsed d\<rparr>),
                                    tr)
                               | None \<Rightarrow> (updatedResults, tr)))))
      in case tried of
           None \<Rightarrow> None
         | Some (updatedResults, tr) \<Rightarrow>
             let tr = tr @ [SetResults updatedResults];
                 tr = tr @ [Sleep 500]
             in Some (updatedResults, tr))"

definition failedIndices :: "FileResult list \<Rightarrow> nat list" where
  "failedIndices results = filter (\<lambda>i. status (results ! i) = Error) [0..<length results]"

definition retryFailed ::
  "batch_env \<Rightarrow> File list \<Rightarrow> jsstring \<Rightarrow> FileResult list \<Rightarrow>
   (FileResult list \<times> event list) option" where
  "retryFailed env files apiKey results =
     (if failedIndices results = [] then Some (results, [Toast NoFailedFiles])
      else
        (case fold (\<lambda>i st. Option.bind st (retryFailed_step env files apiKey i))
                (failedIndices results) (Some (results, [SetIsProcessing True])) of
           None \<Rightarrow> None
         | Some (updatedResults, tr) \<Rightarrow>
             Some (updatedResults, tr @ [SetIsProcessing False, Toast RetryCompleted])))"

text \<open>\<open>filename.replace(/\.[^.]+$/, ".txt")\<close>: the leftmost place where a dot is followed
  by one or more characters other than a dot up to the end of the string is replaced;
  a string with no such place is unchanged.\<close>

fun replace_extension :: "jsstring \<Rightarrow> jsstring" where
  "replace_extension [] = []"
| "replace_extension (c # cs) =
     (if c = 0x2E \<and> cs \<noteq> [] \<and> 0x2E \<notin> set cs then js ''.txt''
      else c # replace_extension cs)"

text \<open>The archive of the ZIP library: \<open>zip.file(name, data)\<close> adds the entry, or replaces
  the data of the entry that already has this name.\<close>

type_synonym zip = "(jsstring \<times> jsval) list"

fun zip_file :: "zip \<Rightarrow> jsstring \<Rightarrow> jsval \<Rightarrow> zip" where
  "zip_file [] n d = [(n, d)]"
| "zip_file ((n', d') # es) n d = (if n' = n then (n', d) # es else (n', d') # zip_file es n d)"

text \<open>The body of the \<open>forEach\<close>: reading \<open>filename.replace\<close> of a result with no
  filename throws.\<close>

fun add_results :: "FileResult list \<Rightarrow> zip \<Rightarrow> zip option" where
  "add_results [] z = Some z"
| "add_results (r # rs) z =
     (case filename r of
        None \<Rightarrow> None
      | Some fname \<Rightarrow>
          add_results rs (zip_file z (replace_extension fname) (js_or (extractedText r) (JStr []))))"

datatype download = NotSaved toast | Saved jsstring zip toast

text \<open>\<open>handleDownloadZip\<close>; \<open>today\<close> is \<open>new Date().toISOString().split("T")[0]\<close>.\<close>

definition handleDownloadZip :: "jsstring \<Rightarrow> FileResult list \<Rightarrow> download" where
  "handleDownloadZip today results =
     (let successfulResults = filter (\<lambda>r. status r = Success) results
      in if length successfulResults = 0 then NotSaved NothingToDownload
         else (case add_results successfulResults [] of
                 None \<Rightarrow> NotSaved ZipGenerationFailed
               | Some z \<Rightarrow>
                   Saved (js ''ocr-results-'' @ today @ js ''.zip'') z
                     (DownloadedZip (length successfulResults))))"

section \<open>Observations on a run\<close>

text \<open>What a trace shows: the successive values given to \<open>setResults\<close>, the indices of
  the files read, the indices of the files for which a request went to the OCR API, and
  the delays.\<close>

definition snapshots :: "event list \<Rightarrow> FileResult list list" where
  "snapshots tr = [s. SetResults s \<leftarrow> tr]"

definition reads :: "event list \<Rightarrow> nat list" where
  "reads tr = [i. ReadFile i \<leftarrow> tr]"

definition ocr_calls :: "event list \<Rightarrow> nat list" where
  "ocr_calls tr = [i. OcrCall i req \<leftarrow> tr]"

definition delays :: "event list \<Rightarrow> nat list" where
  "delays tr = [ms. Sleep ms \<leftarrow> tr]"

text \<open>The reads, the requests and the delays of a trace, in the order they happened.\<close>

fun is_io :: "event \<Rightarrow> bool" where
  "is_io (ReadFile i) = True"
| "is_io (OcrCall i req) = True"
| "is_io (Sleep ms) = True"
| "is_io e = False"

definition timeline :: "event list \<Rightarrow> event list" where
  "timeline tr = filter is_io tr"

text \<open>The component's \<open>results\<close> state after the events of a trace, from the state
  \<open>cur\<close>.\<close>

fun results_after :: "FileResult list \<Rightarrow> event list \<Rightarrow> FileResult list" where
  "results_after cur [] = cur"
| "results_after cur (SetResults s # es) = results_after s es"
| "results_after cur (e # es) = results_after cur es"

text \<open>For every request to the OCR API, the index of its file and the \<open>results\<close> state
  at the moment the request is made.\<close>

fun call_contexts :: "FileResult list \<Rightarrow> event list \<Rightarrow> (nat \<times> FileResult list) list" where
  "call_contexts cur [] = []"
| "call_contexts cur (SetResults s # es) = call_contexts s es"
| "call_contexts cur (OcrCall j req # es) = (j, cur) # call_contexts cur es"
| "call_contexts cur (e # es) = call_contexts cur es"

text \<open>The statuses file \<open>i\<close> goes through, from the state \<open>init\<close>.\<close>

definition history :: "nat \<Rightarrow> FileResult list \<Rightarrow> event list \<Rightarrow> Status list" where
  "history i init tr = remdups_adj (map (\<lambda>s. status (s ! i)) (init # snapshots tr))"

definition processing_count :: "FileResult list \<Rightarrow> nat" where
  "processing_count s = length (filter (\<lambda>r. status r = Processing) s)"

text \<open>Whether the file at index \<open>i\<close> can be read.\<close>

definition readable :: "batch_env \<Rightarrow> File list \<Rightarrow> nat \<Rightarrow> bool" where
  "readable env files i = (\<not> isl (fileToBase64 env i (nth_opt files i)))"

text \<open>What becomes of the file at index \<open>i\<close>: its read fails with a thrown value, or
  \<open>extractText\<close> is called for it and returns a result; \<open>None\<close> when that call never
  returns. The work on the file comes to an end in the first two cases.\<close>

definition file_outcome ::
  "batch_env \<Rightarrow> File list \<Rightarrow> jsstring \<Rightarrow> nat \<Rightarrow> (thrown + ExtractResult) option" where
  "file_outcome env files apiKey i =
     (case fileToBase64 env i (nth_opt files i) of
        Inl e \<Rightarrow> Some (Inl e)
      | Inr base64 \<Rightarrow>
          map_option Inr
            (snd (extractText3 (runtime_for env i) base64 apiKey
                    (case nth_opt files i of Some f \<Rightarrow> type f | None \<Rightarrow> []))))"

definition answered :: "batch_env \<Rightarrow> File list \<Rightarrow> jsstring \<Rightarrow> nat \<Rightarrow> bool" where
  "answered env files apiKey i = (file_outcome env files apiKey i \<noteq> None)"

text \<open>The local array and the trace after the first \<open>k\<close> iterations of the loop of
  \<open>processFiles\<close>, when the loop gets that far.\<close>

definition loop_state ::
  "batch_env \<Rightarrow> File list \<Rightarrow> jsstring \<Rightarrow> FileResult list \<Rightarrow> nat \<Rightarrow>
   FileResult list \<times> event list" where
  "loop_state env files apiKey results k = the (processFiles_loop env files apiKey results k)"

text \<open>The request that goes to the OCR API for the file at index \<open>i\<close>: none when the
  file cannot be read, else the one built from its base64 text, the API key and its
  MIME type, with the default prompt type.\<close>

definition file_requests :: "batch_env \<Rightarrow> File list \<Rightarrow> jsstring \<Rightarrow> nat \<Rightarrow> event list" where
  "file_requests env files apiKey i =
     (case fileToBase64 env i (nth_opt files i) of
        Inl e \<Rightarrow> []
      | Inr base64 \<Rightarrow>
          [OcrCall i (extractText_request base64 apiKey
                        (case nth_opt files i of Some f \<Rightarrow> type f | None \<Rightarrow> []) document)])"

text \<open>Example inputs: two files, a server answer with text and token count, a run where
  the first file is extracted and the second cannot be read, a run where nothing
  can be read, a run where the server refuses the key, and a run where the body of the
  server's answer never ends.\<close>

definition file_a :: File where
  "file_a = \<lparr>name = js ''scan.jpg'', type = js ''image/jpeg'', size_f = 1000\<rparr>"

definition file_b :: File where
  "file_b = \<lparr>name = js ''scan.png'', type = js ''image/png'', size_f = 2000\<rparr>"

definition ok_response :: Response where
  "ok_response =
     \<lparr>http_status = 200, retry_after = None,
      json = JsonValue
        (JObj [(js ''choices'',
                JArr [JObj [(js ''message'', JObj [(js ''content'', JStr (js ''# Title''))])]]),
               (js ''usage'', JObj [(js ''total_tokens'', JNum 42)])])\<rparr>"

definition env_first_ok :: batch_env where
  "env_first_ok =
     \<lparr>read_file = (\<lambda>i. if i = 0 then ReadResult (js ''data:image/jpeg;base64,AAAA'') else ReadError),
      runtime_for = (\<lambda>i. respond 100 ok_response),
      undefined_read_message = js ''parameter 1 is not of type Blob''\<rparr>"

definition env_unreadable :: batch_env where
  "env_unreadable =
     \<lparr>read_file = (\<lambda>i. ReadError),
      runtime_for = (\<lambda>i. respond 100 ok_response),
      undefined_read_message = js ''parameter 1 is not of type Blob''\<rparr>"

definition env_readable :: batch_env where
  "env_readable =
     \<lparr>read_file = (\<lambda>i. ReadResult (js ''data:image/png;base64,BBBB'')),
      runtime_for = (\<lambda>i. respond 100 ok_response),
      undefined_read_message = js ''parameter 1 is not of type Blob''\<rparr>"

definition env_denied :: batch_env where
  "env_denied =
     \<lparr>read_file = (\<lambda>i. ReadResult (js ''data:image/jpeg;base64,AAAA'')),
      runtime_for = (\<lambda>i. respond 100 (json_error_response 401 None)),
      undefined_read_message = js ''parameter 1 is not of type Blob''\<rparr>"

definition env_stalled :: batch_env where
  "env_stalled =
     \<lparr>read_file = (\<lambda>i. ReadResult (js ''data:image/jpeg;base64,AAAA'')),
      runtime_for = (\<lambda>i. respond 100 (stalled_response 200)),
      undefined_read_message = js ''parameter 1 is not of type Blob''\<rparr>"

definition result_of :: "File \<Rightarrow> Status \<Rightarrow> jsval \<Rightarrow> jsval \<Rightarrow> jsval \<Rightarrow> FileResult" where
  "result_of f st txt err tok =
     \<lparr>filename = Some (name f), file_ref = Some f, status = st,
      extractedText = txt, fr_error = err, tokensUsed = tok\<rparr>"

definition a_pending :: FileResult where
  "a_pending = result_of file_a Pending JUndefined JUndefined JUndefined"

definition b_pending :: FileResult where
  "b_pending = result_of file_b Pending JUndefined JUndefined JUndefined"

definition a_processing :: FileResult where
  "a_processing = result_of file_a Processing JUndefined JUndefined JUndefined"

definition b_processing :: FileResult where
  "b_processing = result_of file_b Processing JUndefined JUndefined JUndefined"

definition a_done :: FileResult where
  "a_done = result_of file_a Success (JStr (js ''# Title'')) JUndefined (JNum 42)"

definition b_failed :: FileResult where
  "b_failed = result_of file_b Error JUndefined (JStr (js ''Failed to read file'')) JUndefined"

definition a_denied :: FileResult where
  "a_denied =
     result_of file_a Error JUndefined
       (JStr (js ''Invalid API key. Please update your key in Settings.'')) JUndefined"

definition b_done :: FileResult where
  "b_done = result_of file_b Success (JStr (js ''# Title'')) JUndefined (JNum 42)"

text \<open>Two extracted files whose names differ only in the extension.\<close>

definition first_page :: FileResult where
  "first_page = result_of file_a Success (JStr (js ''first'')) JUndefined (JNum 10)"

definition second_page :: FileResult where
  "second_page = result_of file_b Success (JStr (js ''second'')) JUndefined (JNum 20)"

section \<open>The platform's text encoding\<close>

text \<open>
  \<open>new TextEncoder().encode(s)\<close>: the string is first read as a sequence of Unicode
  scalar values, a surrogate pair giving one value and a surrogate that is not part of
  a pair giving U+FFFD, and each value is then written in UTF-8.
\<close>

definition is_high_surrogate :: "jschar \<Rightarrow> bool" where
  "is_high_surrogate c = (0xD800 \<le> unat c \<and> unat c \<le> 0xDBFF)"

definition is_low_surrogate :: "jschar \<Rightarrow> bool" where
  "is_low_surrogate c = (0xDC00 \<le> unat c \<and> unat c \<le> 0xDFFF)"

fun to_scalars :: "jsstring \<Rightarrow> nat list" where
  "to_scalars [] = []"
| "to_scalars [c] = (if is_high_surrogate c \<or> is_low_surrogate c then [0xFFFD] else [unat c])"
| "to_scalars (c # d # ds) =
     (if is_high_surrogate c then
        (if is_low_surrogate d
         then (0x10000 + (unat c - 0xD800) * 0x400 + (unat d - 0xDC00)) # to_scalars ds
         else 0xFFFD # to_scalars (d # ds))
      else if is_low_surrogate c then 0xFFFD # to_scalars (d # ds)
      else unat c # to_scalars (d # ds))"

text \<open>A string in which every surrogate is part of a pair.\<close>

fun well_formed :: "jsstring \<Rightarrow> bool" where
  "well_formed [] = True"
| "well_formed [c] = (\<not> is_high_surrogate c \<and> \<not> is_low_surrogate c)"
| "well_formed (c # d # ds) =
     (if is_high_surrogate c then is_low_surrogate d \<and> well_formed ds
      else \<not> is_low_surrogate c \<and> well_formed (d # ds))"

definition valid_scalar :: "nat \<Rightarrow> bool" where
  "valid_scalar c = (c < 0x110000 \<and> \<not> (0xD800 \<le> c \<and> c \<le> 0xDFFF))"

definition utf8_encode_scalar :: "nat \<Rightarrow> byte list" where
  "utf8_encode_scalar cp =
     (if cp < 0x80 then [of_nat cp]
      else if cp < 0x800 then [of_nat (0xC0 + cp div 64), of_nat (0x80 + cp mod 64)]
      else if cp < 0x10000 then
        [of_nat (0xE0 + cp div 4096), of_nat (0x80 + cp div 64 mod 64), of_nat (0x80 + cp mod 64)]
      else
        [of_nat (0xF0 + cp div 262144), of_nat (0x80 + cp div 4096 mod 64),
         of_nat (0x80 + cp div 64 mod 64), of_nat (0x80 + cp mod 64)])"

definition TextEncoder_encode :: "jsstring \<Rightarrow> byte list" where
  "TextEncoder_encode s = concat (map utf8_encode_scalar (to_scalars s))"

text \<open>
  \<open>new TextDecoder().decode(bytes)\<close>: the UTF-8 decoder of the Encoding standard, which
  answers U+FFFD for every ill-formed sequence and then goes on with the byte that broke
  it. \<open>utf8_continue needed cp lo hi\<close> is the decoder in the middle of a sequence:
  \<open>needed\<close> bytes are still to come, the next one between \<open>lo\<close> and \<open>hi\<close>. With the
  default options a byte order mark at the start of the input is dropped, and the scalar
  values are written in UTF-16.
\<close>

function utf8_decode :: "nat list \<Rightarrow> nat list"
  and utf8_continue :: "nat \<Rightarrow> nat \<Rightarrow> nat \<Rightarrow> nat \<Rightarrow> nat list \<Rightarrow> nat list" where
  "utf8_decode [] = []"
| "utf8_decode (b # bs) =
     (if b \<le> 0x7F then b # utf8_decode bs
      else if 0xC2 \<le> b \<and> b \<le> 0xDF then utf8_continue 1 (b mod 32) 0x80 0xBF bs
      else if 0xE0 \<le> b \<and> b \<le> 0xEF then
        utf8_continue 2 (b mod 16) (if b = 0xE0 then 0xA0 else 0x80)
          (if b = 0xED then 0x9F else 0xBF) bs
      else if 0xF0 \<le> b \<and> b \<le> 0xF4 then
        utf8_continue 3 (b mod 8) (if b = 0xF0 then 0x90 else 0x80)
          (if b = 0xF4 then 0x8F else 0xBF) bs
      else 0xFFFD # utf8_decode bs)"
| "utf8_continue needed cp lo hi [] = [0xFFFD]"
| "utf8_continue needed cp lo hi (b # bs) =
     (if b < lo \<or> hi < b then 0xFFFD # utf8_decode (b # bs)
      else if needed \<le> 1 then (cp * 64 + b mod 64) # utf8_decode bs
      else utf8_continue (needed - 1) (cp * 64 + b mod 64) 0x80 0xBF bs)"
  by pat_completeness auto
termination
  by (relation "measure (\<lambda>x. case x of Inl bs \<Rightarrow> 2 * length bs
                                  | Inr (needed, cp, lo, hi, bs) \<Rightarrow> 2 * length bs + 1)")
     auto

definition from_scalar :: "nat \<Rightarrow> jsstring" where
  "from_scalar cp =
     (if cp < 0x10000 then [of_nat cp]
      else [of_nat (0xD800 + (cp - 0x10000) div 0x400),
            of_nat (0xDC00 + (cp - 0x10000) mod 0x400)])"

definition TextDecoder_decode :: "byte list \<Rightarrow> jsstring" where
  "TextDecoder_decode bytes =
     (let input = (if take 3 bytes = [0xEF, 0xBB, 0xBF] then drop 3 bytes else bytes)
      in concat (map from_scalar (utf8_decode (map unat input))))"

section \<open>The platform's base64\<close>

text \<open>\<open>btoa\<close> takes a string of code units up to 255 and throws on any other;
  \<open>String.fromCharCode(...bytes)\<close> makes such a string from bytes.\<close>

definition b64char :: "nat \<Rightarrow> jschar" where
  "b64char n =
     (if n < 26 then of_nat (65 + n)
      else if n < 52 then of_nat (97 + (n - 26))
      else if n < 62 then of_nat (48 + (n - 52))
      else if n = 62 then 0x2B
      else 0x2F)"

text \<open>The 6-bit groups of a byte sequence, and the \<open>=\<close> that fill the last group of
  four characters.\<close>

fun sextets :: "nat list \<Rightarrow> nat list" where
  "sextets [] = []"
| "sextets [a] = [a div 4, a mod 4 * 16]"
| "sextets [a, b] = [a div 4, a mod 4 * 16 + b div 16, b mod 16 * 4]"
| "sextets (a # b # c # rest) =
     [a div 4, a mod 4 * 16 + b div 16, b mod 16 * 4 + c div 64, c mod 64] @ sextets rest"

definition b64_encode :: "nat list \<Rightarrow> jsstring" where
  "b64_encode bytes =
     map b64char (sextets bytes) @ replicate ((3 - length bytes mod 3) mod 3) 0x3D"

definition fromCharCode :: "byte list \<Rightarrow> jsstring" where
  "fromCharCode bytes = map ucast bytes"

definition btoa :: "jsstring \<Rightarrow> thrown + jsstring" where
  "btoa s =
     (if \<exists>c\<in>set s. 0xFF < unat c
      then Inl (JsError (js ''InvalidCharacterError'') (js ''The string to be encoded contains characters outside of the Latin1 range.''))
      else Inr (b64_encode (map unat s)))"

text \<open>\<open>atob\<close>, the forgiving base64 decoder: ASCII white space is removed; one or two
  \<open>=\<close> at the end of a string whose length is a multiple of 4 are removed; a length
  of 1 modulo 4, or a character outside the alphabet, is an error; every 4 characters
  give 3 bytes, and 2 or 3 characters at the end give 1 or 2 bytes.\<close>

definition b64val :: "jschar \<Rightarrow> nat option" where
  "b64val c =
     (let n = unat c
      in if 65 \<le> n \<and> n \<le> 90 then Some (n - 65)
         else if 97 \<le> n \<and> n \<le> 122 then Some (n - 97 + 26)
         else if 48 \<le> n \<and> n \<le> 57 then Some (n - 48 + 52)
         else if n = 43 then Some 62
         else if n = 47 then Some 63
         else None)"

definition is_ascii_whitespace :: "jschar \<Rightarrow> bool" where
  "is_ascii_whitespace c = (c = 0x9 \<or> c = 0xA \<or> c = 0xC \<or> c = 0xD \<or> c = 0x20)"

definition strip_padding :: "jsstring \<Rightarrow> jsstring" where
  "strip_padding s =
     (if length s mod 4 = 0 \<and> s \<noteq> [] \<and> last s = 0x3D then
        (if butlast s \<noteq> [] \<and> last (butlast s) = 0x3D then butlast (butlast s) else butlast s)
      else s)"

fun b64_decode :: "nat list \<Rightarrow> nat list" where
  "b64_decode (a # b # c # d # rest) =
     [a * 4 + b div 16, b mod 16 * 16 + c div 4, c mod 4 * 64 + d] @ b64_decode rest"
| "b64_decode [a, b, c] = [a * 4 + b div 16, b mod 16 * 16 + c div 4]"
| "b64_decode [a, b] = [a * 4 + b div 16]"
| "b64_decode vs = []"

definition atob :: "jsstring \<Rightarrow> thrown + jsstring" where
  "atob s =
     (let t = strip_padding (filter (\<lambda>c. \<not> is_ascii_whitespace c) s)
      in if length t mod 4 = 1 \<or> (\<exists>c\<in>set t. b64val c = None)
         then Inl (JsError (js ''InvalidCharacterError'') (js ''The string to be decoded is not correctly encoded.''))
         else Inr (map of_nat (b64_decode (map (\<lambda>c. the (b64val c)) t))))"

text \<open>\<open>Uint8Array.from(str, (c) => c.charCodeAt(0))\<close>.\<close>

definition char_codes :: "jsstring \<Rightarrow> byte list" where
  "char_codes s = map ucast s"

section \<open>lib/encryption.ts: encrypting and decrypting an API key\<close>

text \<open>
  The Web Crypto operations are the platform's, not the repository's; the model takes
  them as parameters. \<open>import_derive_key password salt iterations\<close> is \<open>importKey\<close>
  of the raw password for PBKDF2 followed by \<open>deriveKey\<close> with SHA-256 to an AES-GCM key
  of 256 bits; \<open>aes_gcm_encrypt key iv data\<close> and \<open>aes_gcm_decrypt key iv data\<close> are
  \<open>crypto.subtle.encrypt\<close> and \<open>decrypt\<close> with \<open>{name: "AES-GCM", iv}\<close>; \<open>None\<close> is a
  rejected promise. \<open>random_byte\<close> gives the bytes that \<open>crypto.getRandomValues\<close>
  writes. The limit an engine puts on the number of arguments of
  \<open>String.fromCharCode(...combined)\<close> is not modelled.
\<close>

record 'k crypto =
  import_derive_key :: "byte list \<Rightarrow> byte list \<Rightarrow> nat \<Rightarrow> 'k option"
  aes_gcm_encrypt :: "'k \<Rightarrow> byte list \<Rightarrow> byte list \<Rightarrow> byte list option"
  aes_gcm_decrypt :: "'k \<Rightarrow> byte list \<Rightarrow> byte list \<Rightarrow> byte list option"
  random_byte :: "nat \<Rightarrow> byte"

definition getRandomValues :: "'k crypto \<Rightarrow> nat \<Rightarrow> byte list" where
  "getRandomValues c n = map (random_byte c) [0..<n]"

definition deriveKey :: "'k crypto \<Rightarrow> jsstring \<Rightarrow> 'k option" where
  "deriveKey c userId =
     import_derive_key c (TextEncoder_encode userId)
       (TextEncoder_encode (js ''vOCR-encryption-salt-v1'')) 100000"

definition encryptApiKey :: "'k crypto \<Rightarrow> jsstring \<Rightarrow> jsstring \<Rightarrow> thrown + jsstring" where
  "encryptApiKey c apiKey userId =
     (let failed = Inl (JsError (js ''Error'') (js ''Failed to encrypt API key''))
      in case deriveKey c userId of
           None \<Rightarrow> failed
         | Some key \<Rightarrow>
             let data = TextEncoder_encode apiKey;
                 iv = getRandomValues c 12
             in (case aes_gcm_encrypt c key iv data of
                   None \<Rightarrow> failed
                 | Some encryptedData \<Rightarrow>
                     let combined = iv @ encryptedData
                     in (case btoa (fromCharCode combined) of
                           Inl e \<Rightarrow> failed
                         | Inr encoded \<Rightarrow> Inr encoded)))"

definition decryptApiKey :: "'k crypto \<Rightarrow> jsstring \<Rightarrow> jsstring \<Rightarrow> thrown + jsstring" where
  "decryptApiKey c encryptedData userId =
     (let failed = Inl (JsError (js ''Error'') (js ''Failed to decrypt API key''))
      in case deriveKey c userId of
           None \<Rightarrow> failed
         | Some key \<Rightarrow>
             (case atob encryptedData of
                Inl e \<Rightarrow> failed
              | Inr decoded \<Rightarrow>
                  let combined = char_codes decoded;
                      iv = take 12 combined;
                      data = drop 12 combined
                  in (case aes_gcm_decrypt c key iv data of
                        None \<Rightarrow> failed
                      | Some decryptedData \<Rightarrow> Inr (TextDecoder_decode decryptedData))))"

text \<open>\<open>validateApiKeyFormat\<close>: at least 20 code units, all of them letters, digits,
  \<open>_\<close> or \<open>-\<close>.\<close>

definition is_key_char :: "jschar \<Rightarrow> bool" where
  "is_key_char c =
     (let n = unat c
      in (65 \<le> n \<and> n \<le> 90) \<or> (97 \<le> n \<and> n \<le> 122) \<or> (48 \<le> n \<and> n \<le> 57) \<or> n = 95 \<or> n = 45)"

definition validateApiKeyFormat :: "jsstring \<Rightarrow> bool" where
  "validateApiKeyFormat apiKey = (20 \<le> length apiKey \<and> apiKey \<noteq> [] \<and> list_all is_key_char apiKey)"

section \<open>lib/api-key-service.ts\<close>

text \<open>
  The table \<open>user_api_keys\<close> of the hosted backend, as a map from \<open>user_id\<close>, which the
  schema declares unique, to \<open>encrypted_api_key\<close>. A request can fail for reasons of its
  own (network, policy): the environment says so for the select and for the write of one
  call. A select with \<open>.single()\<close> that finds no row answers the error code
  \<open>PGRST116\<close>; an insert for a user who has a row violates the unique constraint.
\<close>

record db_error =
  code :: jsstring
  db_message :: jsstring
  is_Error :: bool

type_synonym user_api_keys = "jsstring \<rightharpoonup> jsstring"

record backend =
  select_fault :: "db_error option"
  write_fault :: "db_error option"

definition select_single ::
  "backend \<Rightarrow> user_api_keys \<Rightarrow> jsstring \<Rightarrow> jsstring option \<times> db_error option" where
  "select_single be tbl userId =
     (case select_fault be of
        Some e \<Rightarrow> (None, Some e)
      | None \<Rightarrow>
          (case tbl userId of
             Some v \<Rightarrow> (Some v, None)
           | None \<Rightarrow>
               (None, Some \<lparr>code = js ''PGRST116'',
                            db_message = js ''JSON object requested, multiple (or no) rows returned'',
                            is_Error = False\<rparr>)))"

definition db_update ::
  "backend \<Rightarrow> user_api_keys \<Rightarrow> jsstring \<Rightarrow> jsstring \<Rightarrow> user_api_keys \<times> db_error option" where
  "db_update be tbl userId v =
     (case write_fault be of
        Some e \<Rightarrow> (tbl, Some e)
      | None \<Rightarrow> ((if tbl userId = None then tbl else tbl(userId \<mapsto> v)), None))"

definition db_insert ::
  "backend \<Rightarrow> user_api_keys \<Rightarrow> jsstring \<Rightarrow> jsstring \<Rightarrow> user_api_keys \<times> db_error option" where
  "db_insert be tbl userId v =
     (case write_fault be of
        Some e \<Rightarrow> (tbl, Some e)
      | None \<Rightarrow>
          if tbl userId = None then (tbl(userId \<mapsto> v), None)
          else (tbl, Some \<lparr>code = js ''23505'',
                           db_message = js ''duplicate key value violates unique constraint'',
                           is_Error = False\<rparr>))"

text \<open>The writes a call sends to the backend: the user it names and the value of
  \<open>encrypted_api_key\<close>.\<close>

datatype db_write = Update jsstring jsstring | Insert jsstring jsstring

fun written_user :: "db_write \<Rightarrow> jsstring" where
  "written_user (Update u v) = u"
| "written_user (Insert u v) = u"

fun written_value :: "db_write \<Rightarrow> jsstring" where
  "written_value (Update u v) = v"
| "written_value (Insert u v) = v"

record save_result =
  success :: bool
  save_error :: "jsstring option"

text \<open>\<open>error instanceof Error ? error.message : fallback\<close>, for a thrown backend
  error.\<close>

definition db_error_text :: "db_error \<Rightarrow> jsstring \<Rightarrow> jsstring" where
  "db_error_text e fallback = (if is_Error e then db_message e else fallback)"

definition saveApiKey ::
  "'k crypto \<Rightarrow> backend \<Rightarrow> user_api_keys \<Rightarrow> jsstring \<Rightarrow> jsstring \<Rightarrow>
   save_result \<times> user_api_keys \<times> db_write list" where
  "saveApiKey c be tbl userId apiKey =
     (case encryptApiKey c apiKey userId of
        Inl e \<Rightarrow>
          (\<lparr>success = False,
            save_error = Some (case e of JsError n m \<Rightarrow> m | NonError \<Rightarrow> js ''Failed to save API key'')\<rparr>,
           tbl, [])
      | Inr encryptedKey \<Rightarrow>
          (case fst (select_single be tbl userId) of
             Some existing \<Rightarrow>
               (case db_update be tbl userId encryptedKey of
                  (tbl', Some e) \<Rightarrow>
                    (\<lparr>success = False,
                      save_error = Some (db_error_text e (js ''Failed to save API key''))\<rparr>,
                     tbl', [Update userId encryptedKey])
                | (tbl', None) \<Rightarrow>
                    (\<lparr>success = True, save_error = None\<rparr>, tbl', [Update userId encryptedKey]))
           | None \<Rightarrow>
               (case db_insert be tbl userId encryptedKey of
                  (tbl', Some e) \<Rightarrow>
                    (\<lparr>success = False,
                      save_error = Some (db_error_text e (js ''Failed to save API key''))\<rparr>,
                     tbl', [Insert userId encryptedKey])
                | (tbl', None) \<Rightarrow>
                    (\<lparr>success = True, save_error = None\<rparr>, tbl', [Insert userId encryptedKey]))))"

record get_result =
  apiKey_of :: "jsstring option"
  get_error :: "jsstring option"

definition getApiKey :: "'k crypto \<Rightarrow> backend \<Rightarrow> user_api_keys \<Rightarrow> jsstring \<Rightarrow> get_result" where
  "getApiKey c be tbl userId =
     (case select_single be tbl userId of
        (d, Some e) \<Rightarrow>
          if code e = js ''PGRST116'' then \<lparr>apiKey_of = None, get_error = None\<rparr>
          else \<lparr>apiKey_of = None,
                get_error = Some (db_error_text e (js ''Failed to retrieve API key''))\<rparr>
      | (None, None) \<Rightarrow> \<lparr>apiKey_of = None, get_error = None\<rparr>
      | (Some encrypted, None) \<Rightarrow>
          if encrypted = [] then \<lparr>apiKey_of = None, get_error = None\<rparr>
          else
            (case decryptApiKey c encrypted userId of
               Inl e \<Rightarrow>
                 \<lparr>apiKey_of = None,
                  get_error = Some (case e of JsError n m \<Rightarrow> m
                                    | NonError \<Rightarrow> js ''Failed to retrieve API key'')\<rparr>
             | Inr apiKey \<Rightarrow> \<lparr>apiKey_of = Some apiKey, get_error = None\<rparr>))"

text \<open>An example platform: the key is the password, the cipher flips bits and appends a
  tag of 16 bytes, as AES-GCM does, and decryption undoes it.\<close>

definition toy_crypto :: "byte list crypto" where
  "toy_crypto =
     \<lparr>import_derive_key = (\<lambda>password salt iterations. Some password),
      aes_gcm_encrypt = (\<lambda>key iv dat. Some (map (\<lambda>b. b XOR 0x5A) dat @ replicate 16 0)),
      aes_gcm_decrypt = (\<lambda>key iv dat.
         if length dat < 16 then None
         else Some (map (\<lambda>b. b XOR 0x5A) (take (length dat - 16) dat))),
      random_byte = (\<lambda>i. of_nat i)\<rparr>"

definition reachable :: backend where
  "reachable = \<lparr>select_fault = None, write_fault = None\<rparr>"

section \<open>Properties\<close>

subsection \<open>JavaScript strings\<close>

lemma length_js [simp]: "length (js s) = length s"
  by (simp add: js_def)

lemma js_eq_Nil [simp]: "js s = [] \<longleftrightarrow> s = []"
  by (simp add: js_def)

lemma js_substring_take:
  "js_substring s 0 (int n) = take n s"
  by (simp add: js_substring_def Let_def min_def max_def)

lemma js_substring_from_drop:
  "n \<le> length s \<Longrightarrow> js_substring_from s (int (length s) - int n) = drop (length s - n) s"
  by (simp add: js_substring_from_def js_substring_def Let_def min_def max_def nat_diff_distrib)

lemma js_repeat_single: "js_repeat [c] n = replicate n c"
  by (induction n) (simp_all add: js_repeat_def)

subsection \<open>maskApiKey\<close>

lemma maskApiKey_long:
  assumes "8 \<le> length k"
  shows "maskApiKey k = take 3 k @ replicate 12 bullet @ drop (length k - 4) k"
proof -
  have a: "js_substring k 0 3 = take 3 k"
    using js_substring_take [of k 3] by simp
  have b: "js_substring_from k (int (length k) - 4) = drop (length k - 4) k"
    using js_substring_from_drop [of 4 k] assms by simp
  show ?thesis
    using assms by (auto simp add: maskApiKey_def Let_def a b js_repeat_single)
qed

lemma maskApiKey_short:
  assumes "length k < 8"
  shows "maskApiKey k = replicate 8 bullet"
  using assms by (simp add: maskApiKey_def numeral_eq_Suc)

text \<open>
  Claim C10, as the code has it. A key of at least 8 code units is shown as its first 3
  code units, 12 bullets and its last 4 code units, 19 code units in all; a shorter key
  (the empty one included) is shown as 8 bullets. Two keys of at least 8 code units that
  agree on their first 3 and last 4 code units have the same mask, so at most 7 code units
  of the key are revealed. The length of the mask is 19 or 8: it depends on the key only
  through whether the key has at least 8 code units.
\<close>

theorem maskApiKey_masked:
  "(8 \<le> length k \<longrightarrow>
      maskApiKey k = take 3 k @ replicate 12 bullet @ drop (length k - 4) k \<and>
      length (maskApiKey k) = 19) \<and>
   (length k < 8 \<longrightarrow> maskApiKey k = replicate 8 bullet \<and> length (maskApiKey k) = 8) \<and>
   (8 \<le> length k \<and> 8 \<le> length k' \<and> take 3 k' = take 3 k \<and>
         drop (length k' - 4) k' = drop (length k - 4) k \<longrightarrow> maskApiKey k' = maskApiKey k)"
proof (intro conjI impI)
  assume "8 \<le> length k"
  then show "maskApiKey k = take 3 k @ replicate 12 bullet @ drop (length k - 4) k"
    by (rule maskApiKey_long)
next
  assume h: "8 \<le> length k"
  then show "length (maskApiKey k) = 19"
    by (simp add: maskApiKey_long)
next
  assume "length k < 8"
  then show "maskApiKey k = replicate 8 bullet" by (rule maskApiKey_short)
next
  assume "length k < 8"
  then show "length (maskApiKey k) = 8" by (simp add: maskApiKey_short)
next
  assume "8 \<le> length k \<and> 8 \<le> length k' \<and> take 3 k' = take 3 k \<and>
         drop (length k' - 4) k' = drop (length k - 4) k"
  then show "maskApiKey k' = maskApiKey k"
    by (simp add: maskApiKey_long)
qed

text \<open>The theorem at a 23-unit key, at a 3-unit key, and at two keys that differ only in
  the masked middle.\<close>

theorem maskApiKey_masked_witness:
  "maskApiKey (js ''sk-0123456789abcdefWXYZ'') = js ''sk-'' @ replicate 12 bullet @ js ''WXYZ'' \<and>
   length (maskApiKey (js ''sk-0123456789abcdefWXYZ'')) = 19 \<and>
   maskApiKey (js ''abc'') = replicate 8 bullet \<and> length (maskApiKey (js ''abc'')) = 8 \<and>
   maskApiKey (js ''sk-XXXXXXXXXXXXWXYZ'') = maskApiKey (js ''sk-0123456789abcdefWXYZ'')"
  using maskApiKey_masked [of "js ''sk-0123456789abcdefWXYZ''" "js ''sk-XXXXXXXXXXXXWXYZ''"]
        maskApiKey_masked [of "js ''abc''" "[]"]
  by (simp add: js_def)

text \<open>Claim C10 as stated says the length of the mask is independent of the key's length.
  A 3-unit key is masked to 8 code units and an 8-unit key to 19.\<close>

theorem maskApiKey_length_counterexample:
  "length (maskApiKey (js ''abc'')) \<noteq> length (maskApiKey (js ''abcdefgh''))"
  by (simp add: maskApiKey_long maskApiKey_short)

subsection \<open>validateFile\<close>

lemma member_ACCEPTED_TYPES:
  "t \<in> set ACCEPTED_TYPES \<longleftrightarrow>
     t = js ''image/jpeg'' \<or> t = js ''image/png'' \<or> t = js ''image/webp'' \<or>
     t = js ''application/pdf''"
  by (auto simp add: ACCEPTED_TYPES_def)

lemma MAX_SIZE_value: "MAX_SIZE = 10485760"
  by (simp add: MAX_SIZE_def)

lemma validateFile_size_message_example:
  "v_error (validateFile \<lparr>name = js ''a.pdf'', type = js ''application/pdf'', size_f = 20000000\<rparr>) =
     Some (js ''a.pdf: File exceeds 10MB limit (19.1MB).'')"
  by (simp add: validateFile_def member_ACCEPTED_TYPES MAX_SIZE_value megabytes_toFixed1_def
      nat_to_string.simps digit_char_def js_def)

text \<open>
  Claim C8. \<open>validateFile\<close> answers \<open>valid = true\<close> exactly when the MIME type is one
  of image/jpeg, image/png, image/webp, application/pdf and the size is at most 10485760
  bytes, and then there is no error message. Otherwise \<open>valid\<close> is false and the error
  message starts with the file's name. A file of an unsupported type gets the
  format message whatever its size: the format check comes first. A file of a supported
  type that is too large gets the size message.
\<close>

theorem validateFile_valid_iff:
  "(valid (validateFile f) \<longleftrightarrow>
      (type f = js ''image/jpeg'' \<or> type f = js ''image/png'' \<or> type f = js ''image/webp'' \<or>
       type f = js ''application/pdf'') \<and> size_f f \<le> 10485760) \<and>
   (valid (validateFile f) \<longrightarrow> v_error (validateFile f) = None) \<and>
   (\<not> valid (validateFile f) \<longrightarrow>
      (\<exists>msg. v_error (validateFile f) = Some msg \<and> prefix (name f) msg)) \<and>
   (\<not> (type f = js ''image/jpeg'' \<or> type f = js ''image/png'' \<or> type f = js ''image/webp'' \<or>
       type f = js ''application/pdf'') \<longrightarrow>
      v_error (validateFile f) =
        Some (name f @ js '': Format not supported. Use JPG, PNG, WebP, or PDF.'')) \<and>
   ((type f = js ''image/jpeg'' \<or> type f = js ''image/png'' \<or> type f = js ''image/webp'' \<or>
       type f = js ''application/pdf'') \<and> 10485760 < size_f f \<longrightarrow>
      v_error (validateFile f) =
        Some (name f @ js '': File exceeds 10MB limit ('' @ megabytes_toFixed1 (size_f f) @
              js ''MB).''))"
  by (simp add: validateFile_def member_ACCEPTED_TYPES MAX_SIZE_value)

text \<open>The theorem at a PNG of exactly 10485760 bytes (valid), at a PNG one byte larger
  (invalid, size message), and at a 20 MB GIF (invalid, format message although it is
  also too large).\<close>

theorem validateFile_valid_iff_witness:
  "valid (validateFile \<lparr>name = js ''scan.png'', type = js ''image/png'', size_f = 10485760\<rparr>) \<and>
   v_error (validateFile \<lparr>name = js ''scan.png'', type = js ''image/png'', size_f = 10485760\<rparr>) = None \<and>
   \<not> valid (validateFile \<lparr>name = js ''scan.png'', type = js ''image/png'', size_f = 10485761\<rparr>) \<and>
   (\<exists>msg. v_error (validateFile \<lparr>name = js ''scan.png'', type = js ''image/png'', size_f = 10485761\<rparr>)
        = Some msg \<and> prefix (js ''scan.png'') msg) \<and>
   v_error (validateFile \<lparr>name = js ''big.gif'', type = js ''image/gif'', size_f = 20000000\<rparr>) =
     Some (js ''big.gif: Format not supported. Use JPG, PNG, WebP, or PDF.'')"
  using validateFile_valid_iff [of "\<lparr>name = js ''scan.png'', type = js ''image/png'', size_f = 10485760\<rparr>"]
        validateFile_valid_iff [of "\<lparr>name = js ''scan.png'', type = js ''image/png'', size_f = 10485761\<rparr>"]
        validateFile_valid_iff [of "\<lparr>name = js ''big.gif'', type = js ''image/gif'', size_f = 20000000\<rparr>"]
  by (simp add: js_def)

subsection \<open>extractText: the request\<close>

text \<open>
  Claim C3. \<open>extractText\<close> hands exactly one request to \<open>fetch\<close>, and the only text
  part of its message is \<open>OCR_PROMPTS[promptType]\<close>. With the default prompt type (three
  or two arguments) that is "Convert the document to markdown.". The text is the same
  for any two images, API keys, MIME types and environments.
\<close>

theorem extractText_prompt:
  "map prompt_texts (fst (extractText rt img key mime pt)) = [[OCR_PROMPTS pt]] \<and>
   map prompt_texts (fst (extractText3 rt img key mime)) = [[js ''Convert the document to markdown.'']] \<and>
   map prompt_texts (fst (extractText2 rt img key)) = [[js ''Convert the document to markdown.'']] \<and>
   map prompt_texts (fst (extractText rt img key mime pt)) =
     map prompt_texts (fst (extractText rt' img' key' mime' pt))"
  by (simp add: extractText_def extractText2_def extractText3_def Let_def prompt_texts_def
      extractText_request_def)

subsection \<open>extractText: results and errors\<close>

lemma get_prop_not_nullish:
  "\<not> nullish v \<Longrightarrow> get_prop m v k = Inr (own_prop v k)"
  by (simp add: get_prop_def)

lemma get_prop_nullish:
  "nullish v \<Longrightarrow> get_prop m v k = Inl (JsError (js ''TypeError'') m)"
  by (simp add: get_prop_def)

lemma to_double_small: "n < 9007199254740992 \<Longrightarrow> to_double n = Some n"
  by (simp add: to_double_def)

lemma parseInt10_30: "parseInt10 (js ''30'') = Finite 30"
  by (simp add: parseInt10_def js_def is_js_whitespace_def is_digit_def digits_value_def Let_def
      to_double_small)

lemma parseInt10_5: "parseInt10 (js ''5'') = Finite 5"
  by (simp add: parseInt10_def js_def is_js_whitespace_def is_digit_def digits_value_def Let_def
      to_double_small)

text \<open>Above \<open>2^53\<close> the integer read is rounded: \<open>2^53 + 1\<close> lies half way between two
  doubles and goes to the even one.\<close>

lemma bit_length_example: "bit_length 9007199254740993 = 54"
  by (simp add: bit_length.simps)

lemma to_double_example: "to_double 9007199254740993 = Some 9007199254740992"
  by (simp add: to_double_def bit_length_example Let_def)

lemma parseInt10_rounds:
  "parseInt10 (js ''9007199254740993'') = Finite 9007199254740992"
  by (simp add: parseInt10_def js_def is_js_whitespace_def is_digit_def digits_value_def Let_def
      to_double_example)

text \<open>A longer run of digits: the Number for \<open>10^23\<close> is a little below it, and is
  printed with an exponent, from the shortest decimal that rounds to it.\<close>

lemma bit_length_1e23: "bit_length 100000000000000000000000 = 77"
  by (simp add: bit_length.simps)

lemma to_double_1e23: "to_double 100000000000000000000000 = Some 99999999999999991611392"
  by (simp add: to_double_def bit_length_1e23 Let_def)

lemma bit_length_9e22: "bit_length 90000000000000000000000 = 77"
  by (simp add: bit_length.simps)

lemma to_double_9e22: "to_double 90000000000000000000000 \<noteq> Some 99999999999999991611392"
  by (simp add: to_double_def bit_length_9e22 Let_def)

lemma nearest_1e23:
  "nearest_decimal 99999999999999991611392 10000000000000000000000 = [100000000000000000000000]"
  by (simp add: nearest_decimal_def Let_def to_double_1e23 to_double_9e22)


lemma length_nat_to_string_1e23: "length (nat_to_string 99999999999999991611392) = 23"
  by (simp add: nat_to_string.simps)

lemma shortest_1e23: "shortest_decimal 99999999999999991611392 = 100000000000000000000000"
  by (simp add: shortest_decimal_def Let_def length_nat_to_string_1e23 upt_rec nearest_1e23)


lemma digits_1e23:
  "nat_to_string 100000000000000000000000 = js ''100000000000000000000000''"
  by (simp add: nat_to_string.simps digit_char_def js_def)

lemma number_to_string_1e23: "number_to_string 99999999999999991611392 = js ''1e+23''"
proof -
  have n: "length (js ''100000000000000000000000'') = 24"
    by (simp add: js_def)
  have sig: "rev (dropWhile (\<lambda>c. c = 0x30) (rev (js ''100000000000000000000000''))) = js ''1''"
    by (simp add: js_def)
  have one: "length (js ''1'') = Suc 0"
    by (simp add: js_def)
  have e: "nat_to_string 23 = js ''23''"
    by (simp add: nat_to_string.simps digit_char_def js_def)
  have "number_to_string 99999999999999991611392 = js ''1'' @ js ''e+'' @ js ''23''"
    by (simp add: number_to_string_def shortest_1e23 Let_def digits_1e23 n sig e one
        del: length_js)
  then show ?thesis by (simp add: js_def)
qed

lemma parseInt10_printed:
  "jsint_to_string (parseInt10 (js ''100000000000000000000000'')) = js ''1e+23''"
  by (simp add: parseInt10_def is_js_whitespace_def is_digit_def digits_value_def Let_def
      to_double_1e23 number_to_string_1e23 js_def)

lemma handleErrorResponse_parsed:
  assumes "json r = JsonValue v" "\<not> nullish v"
  shows "\<exists>err. handleErrorResponse rt r = Some err \<and>
           err_type err =
             (if http_status r = 401 \<or> http_status r = 403 then invalid_key
              else if http_status r = 429 then rate_limit
              else if http_status r = 500 \<or> http_status r = 502 \<or> http_status r = 503 then server
              else unknown) \<and>
           (http_status r = 429 \<longrightarrow> retryAfter err =
              Some (parseInt10 (case retry_after r of None \<Rightarrow> js ''5''
                                | Some h \<Rightarrow> if h = [] then js ''5'' else h)))"
  using assms
  by (simp add: handleErrorResponse_def handleErrorResponse_try_def get_prop_not_nullish Let_def)

lemma handleErrorResponse_unparsed:
  assumes "json r = JsonThrows e \<or> json r = JsonValue JNull"
  shows "\<exists>err. handleErrorResponse rt r = Some err \<and> err_type err = unknown"
  using assms
  by (auto simp add: handleErrorResponse_def handleErrorResponse_try_def get_prop_def nullish_def)

lemma handleErrorResponse_None:
  "handleErrorResponse rt r = None \<longleftrightarrow> json r = JsonStalls"
  by (simp add: handleErrorResponse_def handleErrorResponse_try_def
      split: json_outcome.splits sum.splits)

lemma handleErrorResponse_stalls:
  "json r = JsonStalls \<Longrightarrow> handleErrorResponse rt r = None"
  by (simp add: handleErrorResponse_None)

lemma extractText_error_response:
  assumes "fetch rt (extractText_request img key mime pt) = Resolves ms r" "ms < 60000"
    "\<not> response_ok r"
  shows "snd (extractText rt img key mime pt) =
           map_option (\<lambda>err. \<lparr>data = None, error = Some err\<rparr>) (handleErrorResponse rt r)"
  using assms
  by (simp add: extractText_def extractText_try_def await_fetch_def TIMEOUT_MS_def Let_def
      split: option.splits)

lemma extractText_aborted:
  assumes "fetch rt (extractText_request img key mime pt) = NeverSettles \<or>
           fetch rt (extractText_request img key mime pt) = Resolves ms r \<and> 60000 \<le> ms \<or>
           fetch rt (extractText_request img key mime pt) = Rejects ms e \<and> 60000 \<le> ms"
  shows "snd (extractText rt img key mime pt) =
           Some \<lparr>data = None, error = Some (handleException (JsError (js ''AbortError'') (abort_message rt)))\<rparr>"
  using assms
  by (auto simp add: extractText_def extractText_try_def await_fetch_def TIMEOUT_MS_def Let_def)

lemma extractText_one_of:
  "snd (extractText rt img key mime pt) = Some x \<Longrightarrow> (data x = None) \<noteq> (error x = None)"
  by (auto simp add: extractText_def extractText_try_def Let_def
      split: sum.splits json_outcome.splits option.splits if_splits)

text \<open>\<open>extractText\<close> returns unless the answer comes before the timer fires and its body
  never ends.\<close>

lemma extractText_None:
  "snd (extractText rt img key mime pt) = None \<longleftrightarrow>
     (\<exists>ms r. fetch rt (extractText_request img key mime pt) = Resolves ms r \<and> ms < 60000 \<and>
         json r = JsonStalls)"
  by (auto simp add: extractText_def extractText_try_def await_fetch_def TIMEOUT_MS_def Let_def
      handleErrorResponse_None handleErrorResponse_stalls
      split: sum.splits json_outcome.splits option.splits if_splits fetch_outcome.splits)

text \<open>
  Claim C9, as the code has it. \<open>extractText\<close> has no throwing path: every exception
  inside it is a branch that ends in \<open>{error}\<close>. It returns unless the server's answer
  comes before the 60000 ms timer fires and the body of the answer never ends (the
  timer is cleared before the body is read); when it returns, its result has exactly
  one of \<open>data\<close> and \<open>error\<close>. When the server answers before the timer with a
  status outside 200..299 and the error body parses as JSON to a value other than
  \<open>null\<close>, the error type is \<open>invalid_key\<close> for 401 and 403, \<open>rate_limit\<close> for 429
  with \<open>retryAfter = parseInt\<close> of the \<open>Retry-After\<close> header (a Number: the integer read,
  rounded to a double), 5 when the header is absent or empty, \<open>server\<close> for 500, 502
  and 503, and \<open>unknown\<close> for every other status. When the error body does not parse,
  or is \<open>null\<close>, the type is \<open>unknown\<close> whatever the status. When the fetch has not
  settled after 60000 ms the type is \<open>timeout\<close>.
\<close>

theorem extractText_classifies:
  fixes rt img key mime pt
  defines "req \<equiv> extractText_request img key mime pt"
    and "res \<equiv> snd (extractText rt img key mime pt)"
  shows
  "(res = None \<longleftrightarrow>
      (\<exists>ms r. fetch rt req = Resolves ms r \<and> ms < 60000 \<and> json r = JsonStalls)) \<and>
   (\<forall>x. res = Some x \<longrightarrow> (data x = None) \<noteq> (error x = None)) \<and>
   (fetch rt req = Resolves ms r \<and> ms < 60000 \<and> \<not> response_ok r \<and>
    json r = JsonValue v \<and> \<not> nullish v \<longrightarrow>
      (\<exists>err. res = Some \<lparr>data = None, error = Some err\<rparr> \<and>
         (http_status r = 401 \<or> http_status r = 403 \<longrightarrow> err_type err = invalid_key) \<and>
         (http_status r = 429 \<longrightarrow>
            err_type err = rate_limit \<and>
            retryAfter err =
              Some (case retry_after r of
                      None \<Rightarrow> Finite 5
                    | Some h \<Rightarrow> if h = [] then Finite 5 else parseInt10 h)) \<and>
         (http_status r = 500 \<or> http_status r = 502 \<or> http_status r = 503 \<longrightarrow>
            err_type err = server) \<and>
         (http_status r \<notin> {401, 403, 429, 500, 502, 503} \<longrightarrow> err_type err = unknown))) \<and>
   (fetch rt req = Resolves ms r \<and> ms < 60000 \<and> \<not> response_ok r \<and>
    (json r = JsonThrows e \<or> json r = JsonValue JNull) \<longrightarrow>
      (\<exists>err. res = Some \<lparr>data = None, error = Some err\<rparr> \<and> err_type err = unknown)) \<and>
   (fetch rt req = NeverSettles \<or> fetch rt req = Resolves ms r \<and> 60000 \<le> ms \<or>
    fetch rt req = Rejects ms e \<and> 60000 \<le> ms \<longrightarrow>
      (\<exists>err. res = Some \<lparr>data = None, error = Some err\<rparr> \<and> err_type err = timeout))"
proof (intro conjI)
  show "res = None \<longleftrightarrow>
      (\<exists>ms r. fetch rt req = Resolves ms r \<and> ms < 60000 \<and> json r = JsonStalls)"
    unfolding res_def req_def by (rule extractText_None)
next
  show "\<forall>x. res = Some x \<longrightarrow> (data x = None) \<noteq> (error x = None)"
  proof (intro allI impI)
    fix x assume "res = Some x"
    then have "snd (extractText rt img key mime pt) = Some x" by (simp add: res_def)
    then show "(data x = None) \<noteq> (error x = None)" by (rule extractText_one_of)
  qed
next
  show "fetch rt req = Resolves ms r \<and> ms < 60000 \<and> \<not> response_ok r \<and>
    json r = JsonValue v \<and> \<not> nullish v \<longrightarrow>
      (\<exists>err. res = Some \<lparr>data = None, error = Some err\<rparr> \<and>
         (http_status r = 401 \<or> http_status r = 403 \<longrightarrow> err_type err = invalid_key) \<and>
         (http_status r = 429 \<longrightarrow>
            err_type err = rate_limit \<and>
            retryAfter err =
              Some (case retry_after r of
                      None \<Rightarrow> Finite 5
                    | Some h \<Rightarrow> if h = [] then Finite 5 else parseInt10 h)) \<and>
         (http_status r = 500 \<or> http_status r = 502 \<or> http_status r = 503 \<longrightarrow>
            err_type err = server) \<and>
         (http_status r \<notin> {401, 403, 429, 500, 502, 503} \<longrightarrow> err_type err = unknown))"
  proof
    assume h: "fetch rt req = Resolves ms r \<and> ms < 60000 \<and> \<not> response_ok r \<and>
      json r = JsonValue v \<and> \<not> nullish v"
    from h have j: "json r = JsonValue v" "\<not> nullish v" by simp_all
    from handleErrorResponse_parsed [OF j, of rt] obtain err where
      err: "handleErrorResponse rt r = Some err"
      and ty: "err_type err =
             (if http_status r = 401 \<or> http_status r = 403 then invalid_key
              else if http_status r = 429 then rate_limit
              else if http_status r = 500 \<or> http_status r = 502 \<or> http_status r = 503 then server
              else unknown)"
      and ra: "http_status r = 429 \<longrightarrow> retryAfter err =
              Some (parseInt10 (case retry_after r of None \<Rightarrow> js ''5''
                                | Some h \<Rightarrow> if h = [] then js ''5'' else h))"
      by blast
    have res: "res = Some \<lparr>data = None, error = Some err\<rparr>"
      using h unfolding res_def req_def by (simp add: extractText_error_response err)
    have "(http_status r = 401 \<or> http_status r = 403 \<longrightarrow> err_type err = invalid_key) \<and>
         (http_status r = 429 \<longrightarrow>
            err_type err = rate_limit \<and>
            retryAfter err =
              Some (case retry_after r of
                      None \<Rightarrow> Finite 5
                    | Some h \<Rightarrow> if h = [] then Finite 5 else parseInt10 h)) \<and>
         (http_status r = 500 \<or> http_status r = 502 \<or> http_status r = 503 \<longrightarrow>
            err_type err = server) \<and>
         (http_status r \<notin> {401, 403, 429, 500, 502, 503} \<longrightarrow> err_type err = unknown)"
      using ty ra by (auto simp add: parseInt10_5 split: option.splits)
    with res show "\<exists>err. res = Some \<lparr>data = None, error = Some err\<rparr> \<and>
         (http_status r = 401 \<or> http_status r = 403 \<longrightarrow> err_type err = invalid_key) \<and>
         (http_status r = 429 \<longrightarrow>
            err_type err = rate_limit \<and>
            retryAfter err =
              Some (case retry_after r of
                      None \<Rightarrow> Finite 5
                    | Some h \<Rightarrow> if h = [] then Finite 5 else parseInt10 h)) \<and>
         (http_status r = 500 \<or> http_status r = 502 \<or> http_status r = 503 \<longrightarrow>
            err_type err = server) \<and>
         (http_status r \<notin> {401, 403, 429, 500, 502, 503} \<longrightarrow> err_type err = unknown)"
      by blast
  qed
next
  show "fetch rt req = Resolves ms r \<and> ms < 60000 \<and> \<not> response_ok r \<and>
    (json r = JsonThrows e \<or> json r = JsonValue JNull) \<longrightarrow>
      (\<exists>err. res = Some \<lparr>data = None, error = Some err\<rparr> \<and> err_type err = unknown)"
  proof
    assume h: "fetch rt req = Resolves ms r \<and> ms < 60000 \<and> \<not> response_ok r \<and>
      (json r = JsonThrows e \<or> json r = JsonValue JNull)"
    then have "json r = JsonThrows e \<or> json r = JsonValue JNull" by simp
    from handleErrorResponse_unparsed [OF this, of rt] obtain err where
      err: "handleErrorResponse rt r = Some err" "err_type err = unknown"
      by blast
    have "res = Some \<lparr>data = None, error = Some err\<rparr>"
      using h unfolding res_def req_def by (simp add: extractText_error_response err)
    with err show "\<exists>err. res = Some \<lparr>data = None, error = Some err\<rparr> \<and> err_type err = unknown"
      by blast
  qed
next
  show "fetch rt req = NeverSettles \<or> fetch rt req = Resolves ms r \<and> 60000 \<le> ms \<or>
    fetch rt req = Rejects ms e \<and> 60000 \<le> ms \<longrightarrow>
      (\<exists>err. res = Some \<lparr>data = None, error = Some err\<rparr> \<and> err_type err = timeout)"
  proof
    assume "fetch rt req = NeverSettles \<or> fetch rt req = Resolves ms r \<and> 60000 \<le> ms \<or>
      fetch rt req = Rejects ms e \<and> 60000 \<le> ms"
    then have "res = Some \<lparr>data = None, error = Some (handleException (JsError (js ''AbortError'') (abort_message rt)))\<rparr>"
      unfolding res_def req_def by (rule extractText_aborted)
    then show "\<exists>err. res = Some \<lparr>data = None, error = Some err\<rparr> \<and> err_type err = timeout"
      by simp
  qed
qed

text \<open>The theorem at a 429 with \<open>Retry-After: 30\<close>, a 429 with
  \<open>Retry-After: 9007199254740993\<close>, a 429 without the header, a 401, a 503, a 404, a 502
  whose body is not JSON, a server that never answers, and a 200 whose body never ends.\<close>

theorem extractText_classifies_witness:
  "(\<exists>err. snd (extractText (respond 100 (json_error_response 429 (Some (js ''30''))))
        (Some (js ''AAAA'')) (js ''key'') (js ''image/png'') document) =
        Some \<lparr>data = None, error = Some err\<rparr> \<and>
      err_type err = rate_limit \<and> retryAfter err = Some (Finite 30)) \<and>
   (\<exists>err. snd (extractText (respond 100 (json_error_response 429 (Some (js ''9007199254740993''))))
        (Some (js ''AAAA'')) (js ''key'') (js ''image/png'') document) =
        Some \<lparr>data = None, error = Some err\<rparr> \<and>
      err_type err = rate_limit \<and> retryAfter err = Some (Finite 9007199254740992)) \<and>
   (\<exists>err. snd (extractText (respond 100 (json_error_response 429 None))
        (Some (js ''AAAA'')) (js ''key'') (js ''image/png'') document) =
        Some \<lparr>data = None, error = Some err\<rparr> \<and>
      err_type err = rate_limit \<and> retryAfter err = Some (Finite 5)) \<and>
   (\<exists>err. snd (extractText (respond 100 (json_error_response 401 None))
        (Some (js ''AAAA'')) (js ''key'') (js ''image/png'') document) =
        Some \<lparr>data = None, error = Some err\<rparr> \<and> err_type err = invalid_key) \<and>
   (\<exists>err. snd (extractText (respond 100 (json_error_response 503 None))
        (Some (js ''AAAA'')) (js ''key'') (js ''image/png'') document) =
        Some \<lparr>data = None, error = Some err\<rparr> \<and> err_type err = server) \<and>
   (\<exists>err. snd (extractText (respond 100 (json_error_response 404 None))
        (Some (js ''AAAA'')) (js ''key'') (js ''image/png'') document) =
        Some \<lparr>data = None, error = Some err\<rparr> \<and> err_type err = unknown) \<and>
   (\<exists>err. snd (extractText (respond 100 (page_error_response 502))
        (Some (js ''AAAA'')) (js ''key'') (js ''image/png'') document) =
        Some \<lparr>data = None, error = Some err\<rparr> \<and> err_type err = unknown) \<and>
   (\<exists>err. snd (extractText silent
        (Some (js ''AAAA'')) (js ''key'') (js ''image/png'') document) =
        Some \<lparr>data = None, error = Some err\<rparr> \<and> err_type err = timeout) \<and>
   snd (extractText (respond 100 (stalled_response 200))
        (Some (js ''AAAA'')) (js ''key'') (js ''image/png'') document) = None"
proof -
  have hyp: "fetch (respond 100 (json_error_response st h)) req = Resolves 100 (json_error_response st h) \<and>
      (100::nat) < 60000 \<and> (st < 200 \<or> 299 < st \<longrightarrow> \<not> response_ok (json_error_response st h)) \<and>
      json (json_error_response st h) = JsonValue (JObj []) \<and> \<not> nullish (JObj []) \<and>
      http_status (json_error_response st h) = st \<and> retry_after (json_error_response st h) = h"
    for st h req
    by (simp add: respond_def json_error_response_def response_ok_def nullish_def)
  have hyp': "fetch (respond 100 (page_error_response st)) req = Resolves 100 (page_error_response st) \<and>
      (100::nat) < 60000 \<and> (st < 200 \<or> 299 < st \<longrightarrow> \<not> response_ok (page_error_response st)) \<and>
      json (page_error_response st) = JsonThrows (JsError (js ''SyntaxError'') (js ''Unexpected token''))"
    for st req
    by (simp add: respond_def page_error_response_def response_ok_def)
  have a: "\<exists>err. snd (extractText (respond 100 (json_error_response 429 (Some (js ''30''))))
        (Some (js ''AAAA'')) (js ''key'') (js ''image/png'') document) =
        Some \<lparr>data = None, error = Some err\<rparr> \<and>
      err_type err = rate_limit \<and> retryAfter err = Some (Finite 30)"
    using extractText_classifies [where rt = "respond 100 (json_error_response 429 (Some (js ''30'')))"
        and r = "json_error_response 429 (Some (js ''30''))" and ms = 100 and v = "JObj []"
        and img = "Some (js ''AAAA'')" and key = "js ''key''" and mime = "js ''image/png''"
        and pt = document, THEN conjunct2, THEN conjunct2, THEN conjunct1]
      hyp [of 429 "Some (js ''30'')"]
    by (simp add: parseInt10_30)
  have a': "\<exists>err. snd (extractText (respond 100 (json_error_response 429 (Some (js ''9007199254740993''))))
        (Some (js ''AAAA'')) (js ''key'') (js ''image/png'') document) =
        Some \<lparr>data = None, error = Some err\<rparr> \<and>
      err_type err = rate_limit \<and> retryAfter err = Some (Finite 9007199254740992)"
    using extractText_classifies [where rt = "respond 100 (json_error_response 429 (Some (js ''9007199254740993'')))"
        and r = "json_error_response 429 (Some (js ''9007199254740993''))" and ms = 100 and v = "JObj []"
        and img = "Some (js ''AAAA'')" and key = "js ''key''" and mime = "js ''image/png''"
        and pt = document, THEN conjunct2, THEN conjunct2, THEN conjunct1]
      hyp [of 429 "Some (js ''9007199254740993'')"]
    by (simp add: parseInt10_rounds)
  have b: "\<exists>err. snd (extractText (respond 100 (json_error_response 429 None))
        (Some (js ''AAAA'')) (js ''key'') (js ''image/png'') document) =
        Some \<lparr>data = None, error = Some err\<rparr> \<and>
      err_type err = rate_limit \<and> retryAfter err = Some (Finite 5)"
    using extractText_classifies [where rt = "respond 100 (json_error_response 429 None)"
        and r = "json_error_response 429 None" and ms = 100 and v = "JObj []"
        and img = "Some (js ''AAAA'')" and key = "js ''key''" and mime = "js ''image/png''"
        and pt = document, THEN conjunct2, THEN conjunct2, THEN conjunct1]
      hyp [of 429 None]
    by simp
  have c: "\<exists>err. snd (extractText (respond 100 (json_error_response 401 None))
        (Some (js ''AAAA'')) (js ''key'') (js ''image/png'') document) =
        Some \<lparr>data = None, error = Some err\<rparr> \<and> err_type err = invalid_key"
    using extractText_classifies [where rt = "respond 100 (json_error_response 401 None)"
        and r = "json_error_response 401 None" and ms = 100 and v = "JObj []"
        and img = "Some (js ''AAAA'')" and key = "js ''key''" and mime = "js ''image/png''"
        and pt = document, THEN conjunct2, THEN conjunct2, THEN conjunct1]
      hyp [of 401 None]
    by simp
  have d: "\<exists>err. snd (extractText (respond 100 (json_error_response 503 None))
        (Some (js ''AAAA'')) (js ''key'') (js ''image/png'') document) =
        Some \<lparr>data = None, error = Some err\<rparr> \<and> err_type err = server"
    using extractText_classifies [where rt = "respond 100 (json_error_response 503 None)"
        and r = "json_error_response 503 None" and ms = 100 and v = "JObj []"
        and img = "Some (js ''AAAA'')" and key = "js ''key''" and mime = "js ''image/png''"
        and pt = document, THEN conjunct2, THEN conjunct2, THEN conjunct1]
      hyp [of 503 None]
    by simp
  have e: "\<exists>err. snd (extractText (respond 100 (json_error_response 404 None))
        (Some (js ''AAAA'')) (js ''key'') (js ''image/png'') document) =
        Some \<lparr>data = None, error = Some err\<rparr> \<and> err_type err = unknown"
    using extractText_classifies [where rt = "respond 100 (json_error_response 404 None)"
        and r = "json_error_response 404 None" and ms = 100 and v = "JObj []"
        and img = "Some (js ''AAAA'')" and key = "js ''key''" and mime = "js ''image/png''"
        and pt = document, THEN conjunct2, THEN conjunct2, THEN conjunct1]
      hyp [of 404 None]
    by simp
  have f: "\<exists>err. snd (extractText (respond 100 (page_error_response 502))
        (Some (js ''AAAA'')) (js ''key'') (js ''image/png'') document) =
        Some \<lparr>data = None, error = Some err\<rparr> \<and> err_type err = unknown"
    using extractText_classifies [where rt = "respond 100 (page_error_response 502)"
        and r = "page_error_response 502" and ms = 100
        and e = "JsError (js ''SyntaxError'') (js ''Unexpected token'')"
        and img = "Some (js ''AAAA'')" and key = "js ''key''" and mime = "js ''image/png''"
        and pt = document, THEN conjunct2, THEN conjunct2, THEN conjunct2, THEN conjunct1]
      hyp' [of 502]
    by simp
  have g: "\<exists>err. snd (extractText silent
        (Some (js ''AAAA'')) (js ''key'') (js ''image/png'') document) =
        Some \<lparr>data = None, error = Some err\<rparr> \<and> err_type err = timeout"
    using extractText_classifies [where rt = silent
        and img = "Some (js ''AAAA'')" and key = "js ''key''" and mime = "js ''image/png''"
        and pt = document, THEN conjunct2, THEN conjunct2, THEN conjunct2, THEN conjunct2]
    by (simp add: silent_def)
  have "fetch (respond 100 (stalled_response 200))
      (extractText_request (Some (js ''AAAA'')) (js ''key'') (js ''image/png'') document) =
      Resolves 100 (stalled_response 200) \<and> (100::nat) < 60000 \<and>
      json (stalled_response 200) = JsonStalls"
    by (simp add: respond_def stalled_response_def)
  then have h: "snd (extractText (respond 100 (stalled_response 200))
        (Some (js ''AAAA'')) (js ''key'') (js ''image/png'') document) = None"
    using extractText_classifies [where rt = "respond 100 (stalled_response 200)"
        and img = "Some (js ''AAAA'')" and key = "js ''key''" and mime = "js ''image/png''"
        and pt = document, THEN conjunct1]
    by blast
  from a a' b c d e f g h show ?thesis by simp
qed

text \<open>Claim C9 as stated gives type \<open>server\<close> to every response of status 502. A 502
  whose body is not JSON (a gateway's error page) makes \<open>response.json()\<close> throw inside
  \<open>handleErrorResponse\<close>, whose \<open>catch\<close> answers \<open>unknown\<close>.\<close>

theorem extractText_502_counterexample:
  "http_status (page_error_response 502) = 502 \<and>
   snd (extractText (respond 100 (page_error_response 502))
      (Some (js ''AAAA'')) (js ''key'') (js ''image/png'') document) =
     Some \<lparr>data = None,
           error = Some \<lparr>err_type = unknown, message = JStr (js ''HTTP 502 error occurred''),
                         retryAfter = None\<rparr>\<rparr> \<and>
   unknown \<noteq> server"
  by (simp add: extractText_def extractText_try_def Let_def respond_def page_error_response_def
      await_fetch_def TIMEOUT_MS_def response_ok_def handleErrorResponse_def
      handleErrorResponse_try_def nat_to_string.simps digit_char_def js_def)

subsection \<open>processFiles: one iteration\<close>

lemma truthy_defined: "truthy v \<Longrightarrow> v \<noteq> JUndefined"
  by (cases v) simp_all

lemma js_or_defined: "b \<noteq> JUndefined \<Longrightarrow> js_or a b \<noteq> JUndefined"
  by (auto simp add: js_or_def dest: truthy_defined)

lemma handleErrorResponse_message:
  "handleErrorResponse rt r = Some e \<Longrightarrow> message e \<noteq> JUndefined"
  by (auto simp add: handleErrorResponse_def handleErrorResponse_try_def Let_def js_or_defined
      split: sum.splits json_outcome.splits option.splits if_splits)

lemma handleException_message: "message (handleException e) \<noteq> JUndefined"
  by (cases e) simp_all

lemma extractText_requests:
  "fst (extractText rt img key mime pt) = [extractText_request img key mime pt]"
  by (simp add: extractText_def Let_def)

lemma extractText_result:
  assumes "snd (extractText rt img key mime pt) = Some x"
  shows "(\<exists>e. x = \<lparr>data = None, error = Some e\<rparr> \<and> message e \<noteq> JUndefined) \<or>
         (\<exists>d. x = \<lparr>data = Some d, error = None\<rparr> \<and>
              ocr_text d \<noteq> JUndefined \<and> ocr_tokensUsed d \<noteq> JUndefined)"
  using assms
  by (auto simp add: extractText_def extractText_try_def Let_def js_or_defined
      handleErrorResponse_message handleException_message
      split: sum.splits json_outcome.splits option.splits if_splits)

text \<open>What becomes of a file is one of three things.\<close>

lemma file_outcome_cases:
  assumes "file_outcome env files apiKey i = Some out"
  shows "(\<exists>e. out = Inl e) \<or>
         (\<exists>err. out = Inr \<lparr>data = None, error = Some err\<rparr> \<and> message err \<noteq> JUndefined) \<or>
         (\<exists>d. out = Inr \<lparr>data = Some d, error = None\<rparr> \<and>
              ocr_text d \<noteq> JUndefined \<and> ocr_tokensUsed d \<noteq> JUndefined)"
proof (cases "fileToBase64 env i (nth_opt files i)")
  case (Inl e)
  then show ?thesis using assms by (auto simp add: file_outcome_def)
next
  case (Inr b)
  let ?mime = "case nth_opt files i of Some f \<Rightarrow> type f | None \<Rightarrow> []"
  from assms Inr obtain x where
    x: "snd (extractText (runtime_for env i) b apiKey ?mime document) = Some x" "out = Inr x"
    by (auto simp add: file_outcome_def extractText3_def)
  from extractText_result [OF x(1)] x(2) show ?thesis by auto
qed

text \<open>The entry that an iteration leaves for its file, from the entry before it.\<close>

lemma processFiles_step_shape:
  assumes "i < length rs" "i < length files" "answered env files apiKey i"
  shows "\<exists>fin mid.
     processFiles_step env files apiKey i (rs, tr) =
       Some (rs[i := fin],
        tr @ [SetCurrentIndex i, SetResults (rs[i := (rs ! i)\<lparr>status := Processing\<rparr>]), ReadFile i]
           @ mid @ [SetResults (rs[i := fin])]
           @ (if i + 1 < length files then [Sleep 500] else [])) \<and>
     (\<exists>t. mid = file_requests env files apiKey i @ [Toast t]) \<and>
     filename fin = filename (rs ! i) \<and> file_ref fin = file_ref (rs ! i) \<and>
     (status fin = Error \<and> fr_error fin \<noteq> JUndefined \<or>
      status fin = Success \<and> extractedText fin \<noteq> JUndefined \<and> tokensUsed fin \<noteq> JUndefined) \<and>
     (\<forall>e. file_outcome env files apiKey i = Some (Inl e) \<longrightarrow>
        fin = (rs ! i)\<lparr>status := Error, fr_error := thrown_message e\<rparr>) \<and>
     (\<forall>err. file_outcome env files apiKey i = Some (Inr \<lparr>data = None, error = Some err\<rparr>) \<longrightarrow>
        fin = (rs ! i)\<lparr>status := Error, fr_error := message err\<rparr>) \<and>
     (\<forall>d. file_outcome env files apiKey i = Some (Inr \<lparr>data = Some d, error = None\<rparr>) \<longrightarrow>
        fin = (rs ! i)\<lparr>status := Success, extractedText := ocr_text d,
                        tokensUsed := ocr_tokensUsed d\<rparr>)"
proof (cases "read_file env i")
  case ReadError
  then show ?thesis
    using assms
    by (fastforce simp add: processFiles_step_def array_set_def spread_status_def Let_def
        fileToBase64_def file_requests_def nth_opt_def file_outcome_def)
next
  case (ReadResult dataUrl)
  let ?b = "split_comma_second dataUrl"
  let ?rt = "runtime_for env i"
  have b: "fileToBase64 env i (nth_opt files i) = Inr ?b"
    using assms(2) ReadResult by (simp add: fileToBase64_def nth_opt_def)
  have req: "fst (extractText3 ?rt ?b apiKey (type (files ! i))) =
      [extractText_request ?b apiKey (type (files ! i)) document]"
    by (simp add: extractText3_def extractText_requests)
  from assms(2,3) b obtain x where
    x: "snd (extractText3 ?rt ?b apiKey (type (files ! i))) = Some x"
    by (auto simp add: answered_def file_outcome_def nth_opt_def)
  then have out: "file_outcome env files apiKey i = Some (Inr x)"
    using assms(2) b by (simp add: file_outcome_def nth_opt_def)
  from x have "snd (extractText ?rt ?b apiKey (type (files ! i)) document) = Some x"
    by (simp add: extractText3_def)
  from extractText_result [OF this]
  show ?thesis
  proof
    assume "\<exists>e. x = \<lparr>data = None, error = Some e\<rparr> \<and> message e \<noteq> JUndefined"
    then obtain e where e: "x = \<lparr>data = None, error = Some e\<rparr>" "message e \<noteq> JUndefined"
      by blast
    show ?thesis
      using assms(1,2) ReadResult req x e out
      by (fastforce simp add: processFiles_step_def array_set_def spread_status_def Let_def
          fileToBase64_def split_beta file_requests_def nth_opt_def)
  next
    assume "\<exists>d. x = \<lparr>data = Some d, error = None\<rparr> \<and>
        ocr_text d \<noteq> JUndefined \<and> ocr_tokensUsed d \<noteq> JUndefined"
    then obtain d where d: "x = \<lparr>data = Some d, error = None\<rparr>"
        "ocr_text d \<noteq> JUndefined" "ocr_tokensUsed d \<noteq> JUndefined"
      by blast
    show ?thesis
      using assms(1,2) ReadResult req x d out
      by (fastforce simp add: processFiles_step_def array_set_def spread_status_def Let_def
          fileToBase64_def split_beta file_requests_def nth_opt_def)
  qed
qed

text \<open>An iteration ends exactly when the work on its file does.\<close>

lemma processFiles_step_None:
  assumes "i < length files"
  shows "processFiles_step env files apiKey i st = None \<longleftrightarrow> \<not> answered env files apiKey i"
  using assms
  by (auto simp add: processFiles_step_def answered_def file_outcome_def nth_opt_def Let_def
      split_beta split: sum.splits option.splits)

lemma snapshots_simps [simp]:
  "snapshots [] = []"
  "snapshots (e # es) = (case e of SetResults s \<Rightarrow> [s] | _ \<Rightarrow> []) @ snapshots es"
  by (simp_all add: snapshots_def)

lemma reads_simps [simp]:
  "reads [] = []"
  "reads (e # es) = (case e of ReadFile i \<Rightarrow> [i] | _ \<Rightarrow> []) @ reads es"
  by (simp_all add: reads_def)

lemma ocr_calls_simps [simp]:
  "ocr_calls [] = []"
  "ocr_calls (e # es) = (case e of OcrCall i req \<Rightarrow> [i] | _ \<Rightarrow> []) @ ocr_calls es"
  by (simp_all add: ocr_calls_def)

lemma delays_simps [simp]:
  "delays [] = []"
  "delays (e # es) = (case e of Sleep ms \<Rightarrow> [ms] | _ \<Rightarrow> []) @ delays es"
  by (simp_all add: delays_def)

lemma timeline_simps [simp]:
  "timeline [] = []"
  "timeline (e # es) = (if is_io e then e # timeline es else timeline es)"
  by (simp_all add: timeline_def)

lemma snapshots_append [simp]: "snapshots (a @ b) = snapshots a @ snapshots b"
  by (simp add: snapshots_def)

lemma reads_append [simp]: "reads (a @ b) = reads a @ reads b"
  by (simp add: reads_def)

lemma ocr_calls_append [simp]: "ocr_calls (a @ b) = ocr_calls a @ ocr_calls b"
  by (simp add: ocr_calls_def)

lemma delays_append [simp]: "delays (a @ b) = delays a @ delays b"
  by (simp add: delays_def)

lemma timeline_append [simp]: "timeline (a @ b) = timeline a @ timeline b"
  by (simp add: timeline_def)

lemma results_after_append [simp]:
  "results_after cur (a @ b) = results_after (results_after cur a) b"
  by (induction cur a rule: results_after.induct) simp_all

lemma call_contexts_append [simp]:
  "call_contexts cur (a @ b) = call_contexts cur a @ call_contexts (results_after cur a) b"
  by (induction cur a rule: call_contexts.induct) simp_all

lemma file_requests_cases:
  "file_requests env files apiKey i = [] \<and> \<not> readable env files i \<or>
   (\<exists>req. file_requests env files apiKey i = [OcrCall i req] \<and> readable env files i)"
  by (simp add: file_requests_def readable_def split: sum.splits)

lemma snapshots_file_requests [simp]: "snapshots (file_requests env files apiKey i) = []"
  using file_requests_cases [of env files apiKey i] by auto

lemma reads_file_requests [simp]: "reads (file_requests env files apiKey i) = []"
  using file_requests_cases [of env files apiKey i] by auto

lemma delays_file_requests [simp]: "delays (file_requests env files apiKey i) = []"
  using file_requests_cases [of env files apiKey i] by auto

lemma ocr_calls_file_requests [simp]:
  "ocr_calls (file_requests env files apiKey i) = (if readable env files i then [i] else [])"
  using file_requests_cases [of env files apiKey i] by auto

lemma timeline_file_requests [simp]:
  "timeline (file_requests env files apiKey i) = file_requests env files apiKey i"
  using file_requests_cases [of env files apiKey i] by auto

lemma results_after_file_requests [simp]:
  "results_after cur (file_requests env files apiKey i @ es) = results_after cur es"
  using file_requests_cases [of env files apiKey i] by auto

lemma call_contexts_file_requests [simp]:
  "call_contexts cur (file_requests env files apiKey i) =
     (if readable env files i then [(i, cur)] else [])"
  using file_requests_cases [of env files apiKey i] by auto

lemma processFiles_loop_0:
  "processFiles_loop env files apiKey results 0 = Some (results, [SetIsProcessing True])"
  by (simp add: processFiles_loop_def)

lemma processFiles_loop_Suc:
  "processFiles_loop env files apiKey results (Suc k) =
     Option.bind (processFiles_loop env files apiKey results k)
       (processFiles_step env files apiKey k)"
  by (simp add: processFiles_loop_def)

text \<open>The loop gets through its first \<open>k\<close> iterations exactly when the work on each of
  the first \<open>k\<close> files comes to an end.\<close>

lemma processFiles_loop_None:
  assumes "k \<le> length files"
  shows "processFiles_loop env files apiKey results k = None \<longleftrightarrow>
           (\<exists>i<k. \<not> answered env files apiKey i)"
  using assms
proof (induction k)
  case 0
  then show ?case by (simp add: processFiles_loop_0)
next
  case (Suc k)
  then have k: "k < length files" and IH: "processFiles_loop env files apiKey results k = None \<longleftrightarrow>
           (\<exists>i<k. \<not> answered env files apiKey i)"
    by simp_all
  show ?case
  proof (cases "processFiles_loop env files apiKey results k")
    case None
    then show ?thesis using IH by (auto simp add: processFiles_loop_Suc less_Suc_eq)
  next
    case (Some st)
    then have "\<forall>i<k. answered env files apiKey i" using IH by auto
    then show ?thesis
      using Some processFiles_step_None [OF k, of env apiKey st]
      by (auto simp add: processFiles_loop_Suc less_Suc_eq)
  qed
qed

lemma loop_state_0:
  "loop_state env files apiKey results 0 = (results, [SetIsProcessing True])"
  by (simp add: loop_state_def processFiles_loop_0)

lemma processFiles_loop_returns:
  assumes "k \<le> length files"
    and H: "\<forall>i<length files. answered env files apiKey i"
  shows "processFiles_loop env files apiKey results k = Some (loop_state env files apiKey results k)"
proof -
  have "processFiles_loop env files apiKey results k \<noteq> None"
    using processFiles_loop_None [OF assms(1), of env apiKey results] assms by auto
  then show ?thesis by (auto simp add: loop_state_def)
qed

lemma loop_state_Suc:
  assumes "k < length files"
    and H: "\<forall>i<length files. answered env files apiKey i"
  shows "processFiles_step env files apiKey k (loop_state env files apiKey results k) =
           Some (loop_state env files apiKey results (Suc k))"
proof -
  have "processFiles_loop env files apiKey results (Suc k) =
      processFiles_step env files apiKey k (loop_state env files apiKey results k)"
    using processFiles_loop_returns [OF _ H, of k results] assms(1)
    by (simp add: processFiles_loop_Suc)
  then show ?thesis
    using processFiles_loop_returns [OF _ H, of "Suc k" results] assms(1) by simp
qed

lemma processFiles_loop_length:
  assumes "length results = length files" "k \<le> length files"
    and H: "\<forall>i<length files. answered env files apiKey i"
  shows "length (fst (loop_state env files apiKey results k)) = length files"
  using assms(2)
proof (induction k)
  case 0
  then show ?case by (simp add: loop_state_0 assms(1))
next
  case (Suc k)
  let ?L = "loop_state env files apiKey results k"
  from Suc have len: "length (fst ?L) = length files" and k: "k < length files" by simp_all
  from H k have ans: "answered env files apiKey k" by simp
  from processFiles_step_shape [of k "fst ?L" files env apiKey "snd ?L"] len k ans
  obtain fin where "fst (the (processFiles_step env files apiKey k ?L)) = (fst ?L)[k := fin]"
    by auto
  then show ?case by (simp add: loop_state_Suc [OF k H] len)
qed

lemma processFiles_loop_step:
  assumes "length results = length files" "k < length files"
    and H: "\<forall>i<length files. answered env files apiKey i"
  shows "\<exists>fin mid.
     loop_state env files apiKey results (Suc k) =
       ((fst (loop_state env files apiKey results k))[k := fin],
        snd (loop_state env files apiKey results k) @
          [SetCurrentIndex k,
           SetResults ((fst (loop_state env files apiKey results k))
                         [k := (fst (loop_state env files apiKey results k) ! k)\<lparr>status := Processing\<rparr>]),
           ReadFile k]
          @ mid @ [SetResults ((fst (loop_state env files apiKey results k))[k := fin])]
          @ (if k + 1 < length files then [Sleep 500] else [])) \<and>
     (\<exists>t. mid = file_requests env files apiKey k @ [Toast t]) \<and>
     filename fin = filename (fst (loop_state env files apiKey results k) ! k) \<and>
     file_ref fin = file_ref (fst (loop_state env files apiKey results k) ! k) \<and>
     (status fin = Error \<and> fr_error fin \<noteq> JUndefined \<or>
      status fin = Success \<and> extractedText fin \<noteq> JUndefined \<and> tokensUsed fin \<noteq> JUndefined) \<and>
     (\<forall>e. file_outcome env files apiKey k = Some (Inl e) \<longrightarrow>
        fin = (fst (loop_state env files apiKey results k) ! k)
                \<lparr>status := Error, fr_error := thrown_message e\<rparr>) \<and>
     (\<forall>err. file_outcome env files apiKey k = Some (Inr \<lparr>data = None, error = Some err\<rparr>) \<longrightarrow>
        fin = (fst (loop_state env files apiKey results k) ! k)
                \<lparr>status := Error, fr_error := message err\<rparr>) \<and>
     (\<forall>d. file_outcome env files apiKey k = Some (Inr \<lparr>data = Some d, error = None\<rparr>) \<longrightarrow>
        fin = (fst (loop_state env files apiKey results k) ! k)
                \<lparr>status := Success, extractedText := ocr_text d, tokensUsed := ocr_tokensUsed d\<rparr>)"
proof -
  let ?L = "loop_state env files apiKey results k"
  have len: "k < length (fst ?L)"
    using processFiles_loop_length [OF assms(1) _ H, of k] assms(2) by simp
  from H assms(2) have ans: "answered env files apiKey k" by simp
  show ?thesis
    using processFiles_step_shape [OF len assms(2) ans, of "snd ?L"]
    by (simp add: loop_state_Suc [OF assms(2) H])
qed

lemma processFiles_loop_state:
  assumes "length results = length files" "k \<le> length files"
    and H: "\<forall>i<length files. answered env files apiKey i"
  shows "(\<forall>i. k \<le> i \<and> i < length files \<longrightarrow>
            fst (loop_state env files apiKey results k) ! i = results ! i) \<and>
         (\<forall>i<k. status (fst (loop_state env files apiKey results k) ! i) = Error \<and>
                  fr_error (fst (loop_state env files apiKey results k) ! i) \<noteq> JUndefined \<or>
                status (fst (loop_state env files apiKey results k) ! i) = Success \<and>
                  extractedText (fst (loop_state env files apiKey results k) ! i) \<noteq> JUndefined \<and>
                  tokensUsed (fst (loop_state env files apiKey results k) ! i) \<noteq> JUndefined) \<and>
         results_after results (snd (loop_state env files apiKey results k)) =
           fst (loop_state env files apiKey results k)"
  using assms(2)
proof (induction k)
  case 0
  then show ?case by (simp add: loop_state_0)
next
  case (Suc k)
  let ?L = "loop_state env files apiKey results k"
  from Suc.prems have k: "k < length files" by simp
  have len: "length (fst ?L) = length files"
    using processFiles_loop_length [OF assms(1) _ H, of k] k by simp
  from Suc.IH k have IH1: "\<And>i. k \<le> i \<Longrightarrow> i < length files \<Longrightarrow> fst ?L ! i = results ! i"
    and IH2: "\<And>i. i < k \<Longrightarrow> status (fst ?L ! i) = Error \<and> fr_error (fst ?L ! i) \<noteq> JUndefined \<or>
                status (fst ?L ! i) = Success \<and> extractedText (fst ?L ! i) \<noteq> JUndefined \<and>
                  tokensUsed (fst ?L ! i) \<noteq> JUndefined"
    and IH3: "results_after results (snd ?L) = fst ?L"
    by simp_all
  from processFiles_loop_step [OF assms(1) k H]
  obtain fin mid where
    step: "loop_state env files apiKey results (Suc k) =
       ((fst ?L)[k := fin],
        snd ?L @ [SetCurrentIndex k, SetResults ((fst ?L)[k := (fst ?L ! k)\<lparr>status := Processing\<rparr>]),
           ReadFile k] @ mid @ [SetResults ((fst ?L)[k := fin])]
          @ (if k + 1 < length files then [Sleep 500] else []))"
    and mid: "\<exists>t. mid = file_requests env files apiKey k @ [Toast t]"
    and fin: "status fin = Error \<and> fr_error fin \<noteq> JUndefined \<or>
      status fin = Success \<and> extractedText fin \<noteq> JUndefined \<and> tokensUsed fin \<noteq> JUndefined"
    by blast
  have a: "\<forall>i. Suc k \<le> i \<and> i < length files \<longrightarrow>
      fst (loop_state env files apiKey results (Suc k)) ! i = results ! i"
    using IH1 by (simp add: step)
  have b: "\<forall>i<Suc k. status (fst (loop_state env files apiKey results (Suc k)) ! i) = Error \<and>
                  fr_error (fst (loop_state env files apiKey results (Suc k)) ! i) \<noteq> JUndefined \<or>
                status (fst (loop_state env files apiKey results (Suc k)) ! i) = Success \<and>
                  extractedText (fst (loop_state env files apiKey results (Suc k)) ! i) \<noteq> JUndefined \<and>
                  tokensUsed (fst (loop_state env files apiKey results (Suc k)) ! i) \<noteq> JUndefined"
  proof (intro allI impI)
    fix i assume "i < Suc k"
    then consider "i < k" | "i = k" by linarith
    then show "status (fst (loop_state env files apiKey results (Suc k)) ! i) = Error \<and>
                  fr_error (fst (loop_state env files apiKey results (Suc k)) ! i) \<noteq> JUndefined \<or>
                status (fst (loop_state env files apiKey results (Suc k)) ! i) = Success \<and>
                  extractedText (fst (loop_state env files apiKey results (Suc k)) ! i) \<noteq> JUndefined \<and>
                  tokensUsed (fst (loop_state env files apiKey results (Suc k)) ! i) \<noteq> JUndefined"
    proof cases
      case 1
      then show ?thesis using IH2 [of i] by (simp add: step)
    next
      case 2
      then show ?thesis using fin len k by (simp add: step)
    qed
  qed
  have c: "results_after results (snd (loop_state env files apiKey results (Suc k))) =
      fst (loop_state env files apiKey results (Suc k))"
    using mid by (auto simp add: step)
  from a b c show ?case by blast
qed


lemma processFiles_loop_no_processing:
  assumes "length results = length files" "k \<le> length files"
    "\<forall>r\<in>set results. status r = Pending" "i < length files"
    and H: "\<forall>i<length files. answered env files apiKey i"
  shows "status (fst (loop_state env files apiKey results k) ! i) =
           (if i < k then status (fst (loop_state env files apiKey results k) ! i) else Pending) \<and>
         status (fst (loop_state env files apiKey results k) ! i) \<noteq> Processing"
proof (cases "i < k")
  case True
  then show ?thesis
    using processFiles_loop_state [OF assms(1,2) H] by auto
next
  case False
  then have "fst (loop_state env files apiKey results k) ! i = results ! i"
    using processFiles_loop_state [OF assms(1,2) H] assms(4) by simp
  moreover have "status (results ! i) = Pending"
    using assms(1,3,4) by simp
  ultimately show ?thesis using False by simp
qed

lemma filter_update_le:
  "length (filter P (xs[k := r])) \<le> Suc (length (filter P xs))"
proof (induction xs arbitrary: k)
  case Nil
  then show ?case by simp
next
  case (Cons x xs)
  show ?case
  proof (cases k)
    case 0
    then show ?thesis by simp
  next
    case (Suc m)
    then show ?thesis using Cons.IH [of m] by simp
  qed
qed

lemma processing_count_0:
  "(\<forall>i<length rs. status (rs ! i) \<noteq> Processing) \<Longrightarrow> processing_count rs = 0"
  by (auto simp add: processing_count_def filter_empty_conv in_set_conv_nth)

lemma processing_count_update:
  "processing_count rs = 0 \<Longrightarrow> processing_count (rs[k := r]) \<le> 1"
  using filter_update_le [of "\<lambda>r. status r = Processing" rs k r]
  by (simp add: processing_count_def)

lemma processFiles_loop_snapshots:
  assumes "length results = length files" "k \<le> length files"
    "\<forall>r\<in>set results. status r = Pending"
    and H: "\<forall>i<length files. answered env files apiKey i"
  shows "\<forall>s\<in>set (snapshots (snd (loop_state env files apiKey results k))).
           length s = length files \<and> processing_count s \<le> 1"
  using assms(2)
proof (induction k)
  case 0
  then show ?case by (simp add: loop_state_0)
next
  case (Suc k)
  let ?L = "loop_state env files apiKey results k"
  from Suc.prems have k: "k < length files" and k': "k \<le> length files" by simp_all
  have len: "length (fst ?L) = length files"
    using processFiles_loop_length [OF assms(1) k' H] by simp
  have "\<forall>i<length (fst ?L). status (fst ?L ! i) \<noteq> Processing"
    using processFiles_loop_no_processing [OF assms(1) k' assms(3) _ H] len by simp
  then have zero: "processing_count (fst ?L) = 0" by (rule processing_count_0)
  from processFiles_loop_step [OF assms(1) k H]
  obtain fin mid where
    step: "loop_state env files apiKey results (Suc k) =
       ((fst ?L)[k := fin],
        snd ?L @ [SetCurrentIndex k, SetResults ((fst ?L)[k := (fst ?L ! k)\<lparr>status := Processing\<rparr>]),
           ReadFile k] @ mid @ [SetResults ((fst ?L)[k := fin])]
          @ (if k + 1 < length files then [Sleep 500] else []))"
    and mid: "\<exists>t. mid = file_requests env files apiKey k @ [Toast t]"
    by blast
  have new: "snapshots (snd (loop_state env files apiKey results (Suc k))) =
      snapshots (snd ?L) @ [(fst ?L)[k := (fst ?L ! k)\<lparr>status := Processing\<rparr>], (fst ?L)[k := fin]]"
    using mid by (auto simp add: step)
  show ?case
    using Suc.IH k' processing_count_update [OF zero] len by (auto simp add: new)
qed

lemma last_snapshot:
  "last (cur # snapshots tr) = results_after cur tr"
  by (induction cur tr rule: results_after.induct) simp_all

lemma remdups_adj_snoc:
  "xs \<noteq> [] \<Longrightarrow>
   remdups_adj (xs @ [y]) = (if last xs = y then remdups_adj xs else remdups_adj xs @ [y])"
proof -
  assume "xs \<noteq> []"
  then obtain ys x where xs: "xs = ys @ [x]" by (metis append_butlast_last_id)
  show ?thesis
    using remdups_adj_append_two [of ys x y] by (simp add: xs)
qed

lemma history_extend:
  "history i init (tr @ [SetResults s]) =
     (if status (results_after init tr ! i) = status (s ! i) then history i init tr
      else history i init tr @ [status (s ! i)])"
proof -
  have "last (map (\<lambda>s. status (s ! i)) (init # snapshots tr)) =
      status (last (init # snapshots tr) ! i)"
    by (rule last_map) simp
  then have l: "last (map (\<lambda>s. status (s ! i)) (init # snapshots tr)) = status (results_after init tr ! i)"
    by (simp only: last_snapshot)
  have "history i init (tr @ [SetResults s]) =
      remdups_adj (map (\<lambda>s. status (s ! i)) (init # snapshots tr) @ [status (s ! i)])"
    by (simp add: history_def)
  also have "\<dots> = (if status (results_after init tr ! i) = status (s ! i) then history i init tr
      else history i init tr @ [status (s ! i)])"
    using remdups_adj_snoc [of "map (\<lambda>s. status (s ! i)) (init # snapshots tr)" "status (s ! i)"] l
    by (simp add: history_def)
  finally show ?thesis .
qed

lemma history_skip:
  "snapshots es = [] \<Longrightarrow> history i init (tr @ es) = history i init tr"
  by (simp add: history_def)


lemma history_two:
  assumes "snapshots es = [s1, s2]"
  shows "history i init (tr @ es) =
     (history i init tr @
        (if status (results_after init tr ! i) = status (s1 ! i) then [] else [status (s1 ! i)])) @
        (if status (s1 ! i) = status (s2 ! i) then [] else [status (s2 ! i)])"
proof -
  let ?xs = "map (\<lambda>s. status (s ! i)) (init # snapshots tr)"
  have "last ?xs = status (last (init # snapshots tr) ! i)"
    by (rule last_map) simp
  then have l: "last ?xs = status (results_after init tr ! i)"
    by (simp only: last_snapshot)
  have "history i init (tr @ es) = remdups_adj (?xs @ [status (s1 ! i), status (s2 ! i)])"
    by (simp add: history_def assms)
  also have "\<dots> = remdups_adj (?xs @ [status (s1 ! i)]) @
      (if status (s1 ! i) = status (s2 ! i) then [] else [status (s2 ! i)])"
    by (rule remdups_adj_append_two)
  also have "remdups_adj (?xs @ [status (s1 ! i)]) =
      history i init tr @
        (if status (results_after init tr ! i) = status (s1 ! i) then [] else [status (s1 ! i)])"
    using remdups_adj_snoc [of ?xs "status (s1 ! i)"] l by (simp add: history_def)
  finally show ?thesis .
qed

lemma processFiles_loop_history:
  assumes "length results = length files" "k \<le> length files"
    "\<forall>r\<in>set results. status r = Pending" "i < length files"
    and H: "\<forall>i<length files. answered env files apiKey i"
  shows "history i results (snd (loop_state env files apiKey results k)) =
           (if i < k then [Pending, Processing, status (fst (loop_state env files apiKey results k) ! i)]
            else [Pending])"
  using assms(2)
proof (induction k)
  case 0
  have "status (results ! i) = Pending" using assms(1,3,4) by simp
  then show ?case by (simp add: loop_state_0 history_def)
next
  case (Suc k)
  let ?L = "loop_state env files apiKey results k"
  from Suc.prems have k: "k < length files" and k': "k \<le> length files" by simp_all
  have len: "length (fst ?L) = length files"
    using processFiles_loop_length [OF assms(1) k' H] by simp
  have after: "results_after results (snd ?L) = fst ?L"
    using processFiles_loop_state [OF assms(1) k' H] by simp
  have pend: "status (fst ?L ! k) = Pending"
    using processFiles_loop_no_processing [OF assms(1) k' assms(3) k H] by simp
  from processFiles_loop_step [OF assms(1) k H]
  obtain fin mid where
    step: "loop_state env files apiKey results (Suc k) =
       ((fst ?L)[k := fin],
        snd ?L @ [SetCurrentIndex k, SetResults ((fst ?L)[k := (fst ?L ! k)\<lparr>status := Processing\<rparr>]),
           ReadFile k] @ mid @ [SetResults ((fst ?L)[k := fin])]
          @ (if k + 1 < length files then [Sleep 500] else []))"
    and mid: "\<exists>t. mid = file_requests env files apiKey k @ [Toast t]"
    and fin: "status fin = Error \<and> fr_error fin \<noteq> JUndefined \<or>
      status fin = Success \<and> extractedText fin \<noteq> JUndefined \<and> tokensUsed fin \<noteq> JUndefined"
    by blast
  let ?new = "[SetCurrentIndex k, SetResults ((fst ?L)[k := (fst ?L ! k)\<lparr>status := Processing\<rparr>]),
           ReadFile k] @ mid @ [SetResults ((fst ?L)[k := fin])]
          @ (if k + 1 < length files then [Sleep 500] else [])"
  have snaps: "snapshots ?new =
      [(fst ?L)[k := (fst ?L ! k)\<lparr>status := Processing\<rparr>], (fst ?L)[k := fin]]"
    using mid by auto
  have h: "history i results (snd (loop_state env files apiKey results (Suc k))) =
      (history i results (snd ?L) @
        (if status (fst ?L ! i) = status ((fst ?L)[k := (fst ?L ! k)\<lparr>status := Processing\<rparr>] ! i)
         then [] else [status ((fst ?L)[k := (fst ?L ! k)\<lparr>status := Processing\<rparr>] ! i)])) @
        (if status ((fst ?L)[k := (fst ?L ! k)\<lparr>status := Processing\<rparr>] ! i) = status ((fst ?L)[k := fin] ! i)
         then [] else [status ((fst ?L)[k := fin] ! i)])"
    using history_two [OF snaps, of i results "snd ?L"] by (simp add: step after)
  show ?case
  proof (cases "i = k")
    case True
    then show ?thesis
      using h Suc.IH k' len k pend fin by (auto simp add: step)
  next
    case False
    then show ?thesis
      using h Suc.IH k' by (auto simp add: step)
  qed
qed

lemma processFiles_loop_contexts:
  assumes "length results = length files" "k \<le> length files"
    "\<forall>r\<in>set results. status r = Pending"
    and H: "\<forall>i<length files. answered env files apiKey i"
  shows "\<forall>(j, s)\<in>set (call_contexts results (snd (loop_state env files apiKey results k))).
           j < k \<and> length s = length files \<and> status (s ! j) = Processing \<and>
           (\<forall>i<j. status (s ! i) = Success \<or> status (s ! i) = Error) \<and>
           (\<forall>i. j < i \<and> i < length files \<longrightarrow> status (s ! i) = Pending)"
  using assms(2)
proof (induction k)
  case 0
  then show ?case by (simp add: loop_state_0)
next
  case (Suc k)
  let ?L = "loop_state env files apiKey results k"
  let ?proc = "(fst ?L)[k := (fst ?L ! k)\<lparr>status := Processing\<rparr>]"
  from Suc.prems have k: "k < length files" and k': "k \<le> length files" by simp_all
  have len: "length (fst ?L) = length files"
    using processFiles_loop_length [OF assms(1) k' H] by simp
  have after: "results_after results (snd ?L) = fst ?L"
    using processFiles_loop_state [OF assms(1) k' H] by simp
  have fins: "\<forall>i<k. status (fst ?L ! i) = Success \<or> status (fst ?L ! i) = Error"
    using processFiles_loop_state [OF assms(1) k' H] by auto
  have rest: "\<forall>i. k < i \<and> i < length files \<longrightarrow> status (fst ?L ! i) = Pending"
    using processFiles_loop_no_processing [OF assms(1) k' assms(3) _ H]
    by (metis not_less_iff_gr_or_eq)
  from processFiles_loop_step [OF assms(1) k H]
  obtain fin mid where
    step: "loop_state env files apiKey results (Suc k) =
       ((fst ?L)[k := fin],
        snd ?L @ [SetCurrentIndex k, SetResults ?proc,
           ReadFile k] @ mid @ [SetResults ((fst ?L)[k := fin])]
          @ (if k + 1 < length files then [Sleep 500] else []))"
    and mid: "\<exists>t. mid = file_requests env files apiKey k @ [Toast t]"
    by blast
  have new: "call_contexts results (snd (loop_state env files apiKey results (Suc k))) =
      call_contexts results (snd ?L) @ (if readable env files k then [(k, ?proc)] else [])"
    using mid by (auto simp add: step after)
  have old: "\<forall>(j, s)\<in>set (call_contexts results (snd ?L)).
           j < Suc k \<and> length s = length files \<and> status (s ! j) = Processing \<and>
           (\<forall>i<j. status (s ! i) = Success \<or> status (s ! i) = Error) \<and>
           (\<forall>i. j < i \<and> i < length files \<longrightarrow> status (s ! i) = Pending)"
    using Suc.IH k' by fastforce
  have this_one: "k < Suc k \<and> length ?proc = length files \<and> status (?proc ! k) = Processing \<and>
           (\<forall>i<k. status (?proc ! i) = Success \<or> status (?proc ! i) = Error) \<and>
           (\<forall>i. k < i \<and> i < length files \<longrightarrow> status (?proc ! i) = Pending)"
    using len k fins rest by simp
  show ?case
    unfolding new using old this_one by auto
qed

lemma processFiles_loop_timeline:
  assumes "length results = length files" "k \<le> length files"
    and H: "\<forall>i<length files. answered env files apiKey i"
  shows "timeline (snd (loop_state env files apiKey results k)) =
           concat (map (\<lambda>i. ReadFile i # file_requests env files apiKey i @
                              (if i + 1 < length files then [Sleep 500] else [])) [0..<k])"
  using assms(2)
proof (induction k)
  case 0
  then show ?case by (simp add: loop_state_0)
next
  case (Suc k)
  let ?L = "loop_state env files apiKey results k"
  from Suc.prems have k: "k < length files" and k': "k \<le> length files" by simp_all
  from processFiles_loop_step [OF assms(1) k H]
  obtain fin mid where
    step: "loop_state env files apiKey results (Suc k) =
       ((fst ?L)[k := fin],
        snd ?L @ [SetCurrentIndex k, SetResults ((fst ?L)[k := (fst ?L ! k)\<lparr>status := Processing\<rparr>]),
           ReadFile k] @ mid @ [SetResults ((fst ?L)[k := fin])]
          @ (if k + 1 < length files then [Sleep 500] else []))"
    and mid: "\<exists>t. mid = file_requests env files apiKey k @ [Toast t]"
    by blast
  from mid obtain t where t: "mid = file_requests env files apiKey k @ [Toast t]" by blast
  have "timeline (snd (loop_state env files apiKey results (Suc k))) =
      timeline (snd ?L) @ ReadFile k # file_requests env files apiKey k @
         (if k + 1 < length files then [Sleep 500] else [])"
    by (simp add: step t)
  then show ?case using Suc.IH k' by simp
qed

lemma processFiles_loop_ocr_calls:
  assumes "length results = length files" "k \<le> length files"
    and H: "\<forall>i<length files. answered env files apiKey i"
  shows "ocr_calls (snd (loop_state env files apiKey results k)) =
           filter (readable env files) [0..<k] \<and>
         reads (snd (loop_state env files apiKey results k)) = [0..<k] \<and>
         delays (snd (loop_state env files apiKey results k)) =
           replicate (min k (length files - 1)) 500"
  using assms(2)
proof (induction k)
  case 0
  then show ?case by (simp add: loop_state_0)
next
  case (Suc k)
  let ?L = "loop_state env files apiKey results k"
  from Suc.prems have k: "k < length files" and k': "k \<le> length files" by simp_all
  from processFiles_loop_step [OF assms(1) k H]
  obtain fin mid where
    step: "loop_state env files apiKey results (Suc k) =
       ((fst ?L)[k := fin],
        snd ?L @ [SetCurrentIndex k, SetResults ((fst ?L)[k := (fst ?L ! k)\<lparr>status := Processing\<rparr>]),
           ReadFile k] @ mid @ [SetResults ((fst ?L)[k := fin])]
          @ (if k + 1 < length files then [Sleep 500] else []))"
    and mid: "\<exists>t. mid = file_requests env files apiKey k @ [Toast t]"
    by blast
  from mid obtain t where t: "mid = file_requests env files apiKey k @ [Toast t]" by blast
  have a: "ocr_calls (snd (loop_state env files apiKey results (Suc k))) =
      filter (readable env files) [0..<Suc k]"
    using Suc.IH k' by (simp add: step t)
  have b: "reads (snd (loop_state env files apiKey results (Suc k))) = [0..<Suc k]"
    using Suc.IH k' by (simp add: step t)
  have "delays (snd (loop_state env files apiKey results (Suc k))) =
      replicate (min k (length files - 1)) 500 @ (if k + 1 < length files then [500] else [])"
    using Suc.IH k' by (simp add: step t)
  also have "\<dots> = replicate (min (Suc k) (length files - 1)) 500"
  proof (cases "k + 1 < length files")
    case True
    then have "min k (length files - 1) = k" "min (Suc k) (length files - 1) = Suc k" by simp_all
    then show ?thesis using True by (simp add: replicate_append_same)
  next
    case False
    with k have "k = length files - 1" by simp
    then show ?thesis using False by simp
  qed
  finally show ?case using a b by simp
qed

text \<open>The entry of a file after its iteration is the initial entry with the outcome of
  the file written into it.\<close>

lemma processFiles_loop_recorded:
  assumes "length results = length files" "k \<le> length files"
    and H: "\<forall>i<length files. answered env files apiKey i"
  shows "\<forall>i<k.
     (\<forall>e. file_outcome env files apiKey i = Some (Inl e) \<longrightarrow>
        fst (loop_state env files apiKey results k) ! i =
          (results ! i)\<lparr>status := Error, fr_error := thrown_message e\<rparr>) \<and>
     (\<forall>err. file_outcome env files apiKey i = Some (Inr \<lparr>data = None, error = Some err\<rparr>) \<longrightarrow>
        fst (loop_state env files apiKey results k) ! i =
          (results ! i)\<lparr>status := Error, fr_error := message err\<rparr>) \<and>
     (\<forall>d. file_outcome env files apiKey i = Some (Inr \<lparr>data = Some d, error = None\<rparr>) \<longrightarrow>
        fst (loop_state env files apiKey results k) ! i =
          (results ! i)\<lparr>status := Success, extractedText := ocr_text d,
                          tokensUsed := ocr_tokensUsed d\<rparr>)"
  using assms(2)
proof (induction k)
  case 0
  then show ?case by simp
next
  case (Suc k)
  let ?L = "loop_state env files apiKey results k"
  from Suc.prems have k: "k < length files" and k': "k \<le> length files" by simp_all
  have len: "length (fst ?L) = length files"
    using processFiles_loop_length [OF assms(1) k' H] by simp
  have same: "fst ?L ! k = results ! k"
    using processFiles_loop_state [OF assms(1) k' H] k by simp
  from processFiles_loop_step [OF assms(1) k H]
  obtain fin mid where
    step: "fst (loop_state env files apiKey results (Suc k)) = (fst ?L)[k := fin]"
    and f1: "\<forall>e. file_outcome env files apiKey k = Some (Inl e) \<longrightarrow>
        fin = (fst ?L ! k)\<lparr>status := Error, fr_error := thrown_message e\<rparr>"
    and f2: "\<forall>err. file_outcome env files apiKey k = Some (Inr \<lparr>data = None, error = Some err\<rparr>) \<longrightarrow>
        fin = (fst ?L ! k)\<lparr>status := Error, fr_error := message err\<rparr>"
    and f3: "\<forall>d. file_outcome env files apiKey k = Some (Inr \<lparr>data = Some d, error = None\<rparr>) \<longrightarrow>
        fin = (fst ?L ! k)\<lparr>status := Success, extractedText := ocr_text d,
                           tokensUsed := ocr_tokensUsed d\<rparr>"
    by fastforce
  show ?case
  proof (intro allI impI)
    fix i assume "i < Suc k"
    then consider "i < k" | "i = k" by linarith
    then show "(\<forall>e. file_outcome env files apiKey i = Some (Inl e) \<longrightarrow>
        fst (loop_state env files apiKey results (Suc k)) ! i =
          (results ! i)\<lparr>status := Error, fr_error := thrown_message e\<rparr>) \<and>
     (\<forall>err. file_outcome env files apiKey i = Some (Inr \<lparr>data = None, error = Some err\<rparr>) \<longrightarrow>
        fst (loop_state env files apiKey results (Suc k)) ! i =
          (results ! i)\<lparr>status := Error, fr_error := message err\<rparr>) \<and>
     (\<forall>d. file_outcome env files apiKey i = Some (Inr \<lparr>data = Some d, error = None\<rparr>) \<longrightarrow>
        fst (loop_state env files apiKey results (Suc k)) ! i =
          (results ! i)\<lparr>status := Success, extractedText := ocr_text d,
                          tokensUsed := ocr_tokensUsed d\<rparr>)"
    proof cases
      case 1
      then show ?thesis using Suc.IH k' by (simp add: step)
    next
      case 2
      then show ?thesis using f1 f2 f3 same len k by (simp add: step)
    qed
  qed
qed

text \<open>\<open>processFiles\<close> returns exactly when the work on every file comes to an end.\<close>

lemma processFiles_None:
  "processFiles env files apiKey results = None \<longleftrightarrow>
     (\<exists>i<length files. \<not> answered env files apiKey i)"
proof -
  have "processFiles env files apiKey results = None \<longleftrightarrow>
      processFiles_loop env files apiKey results (length files) = None"
    by (simp add: processFiles_def Let_def split: option.splits prod.splits)
  then show ?thesis
    using processFiles_loop_None [OF order_refl, of env files apiKey results] by simp
qed

lemma processFiles_unfold:
  assumes H: "\<forall>i<length files. answered env files apiKey i"
  shows "\<exists>t. processFiles env files apiKey results =
     Some (fst (loop_state env files apiKey results (length files)),
           snd (loop_state env files apiKey results (length files)) @
             [SetIsProcessing False, SetCurrentIndex (length files), Toast t])"
  using processFiles_loop_returns [OF order_refl H, of results]
  by (simp add: processFiles_def Let_def split_beta)

text \<open>The projection of a run onto its reads, requests and delays, and the delays
  alone.\<close>

lemma processFiles_timeline:
  assumes "length results = length files"
    and H: "\<forall>i<length files. answered env files apiKey i"
  shows "\<exists>final tr. processFiles env files apiKey results = Some (final, tr) \<and>
         timeline tr =
           concat (map (\<lambda>i. ReadFile i # file_requests env files apiKey i @
                              (if i + 1 < length files then [Sleep 500] else [])) [0..<length files]) \<and>
         delays tr = replicate (length files - 1) 500"
proof -
  obtain t where tr: "processFiles env files apiKey results =
     Some (fst (loop_state env files apiKey results (length files)),
           snd (loop_state env files apiKey results (length files)) @
             [SetIsProcessing False, SetCurrentIndex (length files), Toast t])"
    using processFiles_unfold [OF H] by blast
  show ?thesis
    using processFiles_loop_timeline [OF assms(1) order_refl H]
      processFiles_loop_ocr_calls [OF assms(1) order_refl H]
    by (simp add: tr)
qed

lemma timeline_last_not_sleep:
  assumes "files \<noteq> []"
  shows "last (concat (map (\<lambda>i. ReadFile i # file_requests env files apiKey i @
                              (if i + 1 < length files then [Sleep 500] else [])) [0..<length files]))
           \<noteq> Sleep ms"
proof -
  obtain m where m: "length files = Suc m"
    using assms(1) by (cases files) simp_all
  have tl: "concat (map (\<lambda>i. ReadFile i # file_requests env files apiKey i @
                              (if i + 1 < length files then [Sleep 500] else [])) [0..<length files]) =
      concat (map (\<lambda>i. ReadFile i # file_requests env files apiKey i @
                              (if i + 1 < length files then [Sleep 500] else [])) [0..<m]) @
      ReadFile m # file_requests env files apiKey m"
    by (simp add: m)
  show ?thesis
    unfolding tl using file_requests_cases [of env files apiKey m] by auto
qed

subsection \<open>Example runs\<close>

text \<open>Two files; the first is read and extracted, the second cannot be read.\<close>

lemma example_run:
  "processFiles env_first_ok [file_a, file_b] (js ''key'') (initial_results [file_a, file_b]) =
     Some ([a_done, b_failed],
      [SetIsProcessing True,
       SetCurrentIndex 0, SetResults [a_processing, b_pending], ReadFile 0,
       OcrCall 0 (extractText_request (Some (js ''AAAA'')) (js ''key'') (js ''image/jpeg'') document),
       Toast (FileExtracted (js ''scan.jpg'')), SetResults [a_done, b_pending], Sleep 500,
       SetCurrentIndex 1, SetResults [a_done, b_processing], ReadFile 1,
       Toast (FileProcessingFailed (js ''scan.png'')), SetResults [a_done, b_failed],
       SetIsProcessing False, SetCurrentIndex 2, Toast (Completed 1 1)])"
  by (simp add: processFiles_def processFiles_loop_def processFiles_step_def Let_def
      env_first_ok_def file_a_def file_b_def initial_results_def array_set_def spread_status_def
      fileToBase64_def split_comma_second_def extractText3_def extractText_def extractText_try_def
      await_fetch_def respond_def ok_response_def TIMEOUT_MS_def response_ok_def get_prop_def
      nullish_def opt_prop_def opt_index0_def js_or_def a_done_def b_failed_def a_processing_def
      b_processing_def a_pending_def b_pending_def result_of_def js_def)

lemma example_run_observed:
  "snapshots (snd (the (processFiles env_first_ok [file_a, file_b] (js ''key'')
      (initial_results [file_a, file_b])))) =
     [[a_processing, b_pending], [a_done, b_pending], [a_done, b_processing], [a_done, b_failed]]"
  "call_contexts (initial_results [file_a, file_b])
     (snd (the (processFiles env_first_ok [file_a, file_b] (js ''key'')
        (initial_results [file_a, file_b])))) =
     [(0, [a_processing, b_pending])]"
  "fst (the (processFiles env_first_ok [file_a, file_b] (js ''key'')
      (initial_results [file_a, file_b]))) =
     [a_done, b_failed]"
  by (simp_all add: example_run)

lemma example_statuses:
  "status a_pending = Pending" "status b_pending = Pending"
  "status a_processing = Processing" "status b_processing = Processing"
  "status a_done = Success" "status b_failed = Error"
  by (simp_all add: a_pending_def b_pending_def a_processing_def b_processing_def a_done_def
      b_failed_def result_of_def)

lemma example_outcomes:
  "file_outcome env_first_ok [file_a, file_b] (js ''key'') 0 =
     Some (Inr \<lparr>data = Some \<lparr>ocr_text = JStr (js ''# Title''), ocr_tokensUsed = JNum 42\<rparr>,
                error = None\<rparr>)"
  "file_outcome env_first_ok [file_a, file_b] (js ''key'') (Suc 0) =
     Some (Inl (JsError (js ''Error'') (js ''Failed to read file'')))"
  by (simp_all add: file_outcome_def nth_opt_def env_first_ok_def fileToBase64_def
      split_comma_second_def extractText3_def extractText_def extractText_try_def Let_def
      await_fetch_def respond_def ok_response_def TIMEOUT_MS_def response_ok_def get_prop_def
      nullish_def opt_prop_def opt_index0_def js_or_def js_def)

text \<open>One file, and a server that refuses the key: the file is recorded as failed, with
  the message of the error that \<open>extractText\<close> returned.\<close>

lemma example_denied:
  "processFiles env_denied [file_a] (js ''key'') (initial_results [file_a]) =
     Some ([a_denied],
      [SetIsProcessing True,
       SetCurrentIndex 0, SetResults [a_processing], ReadFile 0,
       OcrCall 0 (extractText_request (Some (js ''AAAA'')) (js ''key'') (js ''image/jpeg'') document),
       Toast (FileFailed (js ''scan.jpg'')
                (JStr (js ''Invalid API key. Please update your key in Settings.''))),
       SetResults [a_denied],
       SetIsProcessing False, SetCurrentIndex 1, Toast (Completed 0 1)])"
  by (simp add: processFiles_def processFiles_loop_def processFiles_step_def Let_def
      env_denied_def file_a_def initial_results_def array_set_def spread_status_def
      fileToBase64_def split_comma_second_def extractText3_def extractText_def extractText_try_def
      await_fetch_def respond_def json_error_response_def TIMEOUT_MS_def response_ok_def
      handleErrorResponse_def handleErrorResponse_try_def get_prop_def
      nullish_def opt_prop_def js_or_def a_denied_def a_processing_def result_of_def js_def)

lemma example_denied_outcome:
  "file_outcome env_denied [file_a] (js ''key'') 0 =
     Some (Inr \<lparr>data = None,
                error = Some \<lparr>err_type = invalid_key,
                              message = JStr (js ''Invalid API key. Please update your key in Settings.''),
                              retryAfter = None\<rparr>\<rparr>)"
  by (simp add: file_outcome_def nth_opt_def env_denied_def fileToBase64_def
      split_comma_second_def extractText3_def extractText_def extractText_try_def Let_def
      await_fetch_def respond_def json_error_response_def TIMEOUT_MS_def response_ok_def
      handleErrorResponse_def handleErrorResponse_try_def get_prop_def
      nullish_def opt_prop_def js_or_def js_def)

text \<open>One file, and an answer whose body never ends: the run does not return.\<close>

lemma example_stalled:
  "\<not> answered env_stalled [file_a] (js ''key'') 0"
  "processFiles env_stalled [file_a] (js ''key'') (initial_results [file_a]) = None"
proof -
  show a: "\<not> answered env_stalled [file_a] (js ''key'') 0"
    by (simp add: answered_def file_outcome_def nth_opt_def env_stalled_def fileToBase64_def
        split_comma_second_def extractText3_def extractText_def extractText_try_def Let_def
        await_fetch_def respond_def stalled_response_def TIMEOUT_MS_def response_ok_def js_def)
  show "processFiles env_stalled [file_a] (js ''key'') (initial_results [file_a]) = None"
    using a by (auto simp add: processFiles_None)
qed

subsection \<open>processFiles: sequential processing and status tracking\<close>

text \<open>
  Claim C4. \<open>processFiles\<close> returns exactly when the work on every file comes to an end,
  that is, unless the body of a server answer never ends. In a run that returns, from
  the component's initial state, over any file list and in any environment:
  \<^item> in the initial state and in every state given to \<open>setResults\<close>, at most one file has
    status \<open>processing\<close>;
  \<^item> the requests to the OCR API are made in ascending index order, one for each file
    that can be read;
  \<^item> at the moment the request for file \<open>j\<close> is made, file \<open>j\<close> is \<open>processing\<close>, every
    earlier file is already \<open>success\<close> or \<open>error\<close> and every later file is still
    \<open>pending\<close>;
  \<^item> every file goes through exactly \<open>pending\<close>, \<open>processing\<close>, \<open>success\<close>, with
    \<open>extractedText\<close> and \<open>tokensUsed\<close> set, or \<open>pending\<close>, \<open>processing\<close>, \<open>error\<close>, with
    an error message set;
  \<^item> the entry recorded for a file is its initial entry with the outcome of the file
    written into it: status \<open>error\<close> and the message of the thrown value when the read
    failed, status \<open>error\<close> and the message of the error when \<open>extractText\<close> returned
    \<open>{error}\<close>, status \<open>success\<close> and the text and token count when it returned
    \<open>{data}\<close>;
  \<^item> the final state has one result per file, each \<open>success\<close> or \<open>error\<close>, and is the
    last state given to \<open>setResults\<close>.
\<close>

theorem processFiles_tracks_status:
  fixes env files apiKey
  defines "init \<equiv> initial_results files"
  shows
    "(processFiles env files apiKey init = None \<longleftrightarrow>
        (\<exists>i<length files. \<not> answered env files apiKey i)) \<and>
     (\<forall>final tr. processFiles env files apiKey init = Some (final, tr) \<longrightarrow>
       (\<forall>s\<in>set (init # snapshots tr). processing_count s \<le> 1) \<and>
       ocr_calls tr = filter (readable env files) [0..<length files] \<and>
       (\<forall>(j, s)\<in>set (call_contexts init tr).
          status (s ! j) = Processing \<and>
          (\<forall>i<j. status (s ! i) = Success \<or> status (s ! i) = Error) \<and>
          (\<forall>i. j < i \<and> i < length files \<longrightarrow> status (s ! i) = Pending)) \<and>
       (\<forall>i<length files.
          history i init tr = [Pending, Processing, Success] \<and> status (final ! i) = Success \<and>
            extractedText (final ! i) \<noteq> JUndefined \<and> tokensUsed (final ! i) \<noteq> JUndefined \<or>
          history i init tr = [Pending, Processing, Error] \<and> status (final ! i) = Error \<and>
            fr_error (final ! i) \<noteq> JUndefined) \<and>
       (\<forall>i<length files.
          (\<forall>e. file_outcome env files apiKey i = Some (Inl e) \<longrightarrow>
             final ! i = (init ! i)\<lparr>status := Error, fr_error := thrown_message e\<rparr>) \<and>
          (\<forall>err. file_outcome env files apiKey i = Some (Inr \<lparr>data = None, error = Some err\<rparr>) \<longrightarrow>
             final ! i = (init ! i)\<lparr>status := Error, fr_error := message err\<rparr>) \<and>
          (\<forall>d. file_outcome env files apiKey i = Some (Inr \<lparr>data = Some d, error = None\<rparr>) \<longrightarrow>
             final ! i = (init ! i)\<lparr>status := Success, extractedText := ocr_text d,
                                    tokensUsed := ocr_tokensUsed d\<rparr>) \<and>
          (\<exists>out. file_outcome env files apiKey i = Some out \<and>
             ((\<exists>e. out = Inl e) \<or> (\<exists>err. out = Inr \<lparr>data = None, error = Some err\<rparr>) \<or>
              (\<exists>d. out = Inr \<lparr>data = Some d, error = None\<rparr>)))) \<and>
       length final = length files \<and> results_after init tr = final)"
proof -
  have returns: "processFiles env files apiKey init = None \<longleftrightarrow>
        (\<exists>i<length files. \<not> answered env files apiKey i)"
    by (rule processFiles_None)
  have run: "(\<forall>s\<in>set (init # snapshots tr). processing_count s \<le> 1) \<and>
       ocr_calls tr = filter (readable env files) [0..<length files] \<and>
       (\<forall>(j, s)\<in>set (call_contexts init tr).
          status (s ! j) = Processing \<and>
          (\<forall>i<j. status (s ! i) = Success \<or> status (s ! i) = Error) \<and>
          (\<forall>i. j < i \<and> i < length files \<longrightarrow> status (s ! i) = Pending)) \<and>
       (\<forall>i<length files.
          history i init tr = [Pending, Processing, Success] \<and> status (final ! i) = Success \<and>
            extractedText (final ! i) \<noteq> JUndefined \<and> tokensUsed (final ! i) \<noteq> JUndefined \<or>
          history i init tr = [Pending, Processing, Error] \<and> status (final ! i) = Error \<and>
            fr_error (final ! i) \<noteq> JUndefined) \<and>
       (\<forall>i<length files.
          (\<forall>e. file_outcome env files apiKey i = Some (Inl e) \<longrightarrow>
             final ! i = (init ! i)\<lparr>status := Error, fr_error := thrown_message e\<rparr>) \<and>
          (\<forall>err. file_outcome env files apiKey i = Some (Inr \<lparr>data = None, error = Some err\<rparr>) \<longrightarrow>
             final ! i = (init ! i)\<lparr>status := Error, fr_error := message err\<rparr>) \<and>
          (\<forall>d. file_outcome env files apiKey i = Some (Inr \<lparr>data = Some d, error = None\<rparr>) \<longrightarrow>
             final ! i = (init ! i)\<lparr>status := Success, extractedText := ocr_text d,
                                    tokensUsed := ocr_tokensUsed d\<rparr>) \<and>
          (\<exists>out. file_outcome env files apiKey i = Some out \<and>
             ((\<exists>e. out = Inl e) \<or> (\<exists>err. out = Inr \<lparr>data = None, error = Some err\<rparr>) \<or>
              (\<exists>d. out = Inr \<lparr>data = Some d, error = None\<rparr>)))) \<and>
       length final = length files \<and> results_after init tr = final"
    if ret: "processFiles env files apiKey init = Some (final, tr)" for final tr
  proof -
    let ?L = "loop_state env files apiKey init (length files)"
    have H: "\<forall>i<length files. answered env files apiKey i"
      using ret returns by auto
    have len: "length init = length files" by (simp add: init_def initial_results_def)
    have pend: "\<forall>r\<in>set init. status r = Pending" by (auto simp add: init_def initial_results_def)
    from processFiles_unfold [OF H, of init] ret obtain t where
      final: "final = fst ?L"
      and tr: "tr = snd ?L @ [SetIsProcessing False, SetCurrentIndex (length files), Toast t]"
      by auto
    have state: "(\<forall>i<length files. status (fst ?L ! i) = Error \<and> fr_error (fst ?L ! i) \<noteq> JUndefined \<or>
          status (fst ?L ! i) = Success \<and> extractedText (fst ?L ! i) \<noteq> JUndefined \<and>
          tokensUsed (fst ?L ! i) \<noteq> JUndefined)"
      and after: "results_after init (snd ?L) = fst ?L"
      using processFiles_loop_state [OF len order_refl H] by simp_all
    have "processing_count init = 0"
      using pend by (intro processing_count_0) simp
    then have c1: "\<forall>s\<in>set (init # snapshots tr). processing_count s \<le> 1"
      using processFiles_loop_snapshots [OF len order_refl pend H] by (simp add: tr)
    have c2: "ocr_calls tr = filter (readable env files) [0..<length files]"
      using processFiles_loop_ocr_calls [OF len order_refl H] by (simp add: tr)
    have c3: "\<forall>(j, s)\<in>set (call_contexts init tr).
          status (s ! j) = Processing \<and>
          (\<forall>i<j. status (s ! i) = Success \<or> status (s ! i) = Error) \<and>
          (\<forall>i. j < i \<and> i < length files \<longrightarrow> status (s ! i) = Pending)"
      using processFiles_loop_contexts [OF len order_refl pend H]
      by (simp add: tr) fastforce
    have hist: "history i init tr = [Pending, Processing, status (fst ?L ! i)]" if "i < length files" for i
    proof -
      have "history i init tr = history i init (snd ?L)"
        unfolding tr by (rule history_skip) simp
      then show ?thesis
        using processFiles_loop_history [OF len order_refl pend that H] that by simp
    qed
    have c4: "\<forall>i<length files.
          history i init tr = [Pending, Processing, Success] \<and> status (final ! i) = Success \<and>
            extractedText (final ! i) \<noteq> JUndefined \<and> tokensUsed (final ! i) \<noteq> JUndefined \<or>
          history i init tr = [Pending, Processing, Error] \<and> status (final ! i) = Error \<and>
            fr_error (final ! i) \<noteq> JUndefined"
      using state hist final by auto
    have cases: "\<exists>out. file_outcome env files apiKey i = Some out \<and>
             ((\<exists>e. out = Inl e) \<or> (\<exists>err. out = Inr \<lparr>data = None, error = Some err\<rparr>) \<or>
              (\<exists>d. out = Inr \<lparr>data = Some d, error = None\<rparr>))" if "i < length files" for i
    proof -
      from H that obtain out where out: "file_outcome env files apiKey i = Some out"
        by (auto simp add: answered_def)
      from file_outcome_cases [OF out] out show ?thesis by blast
    qed
    have c5: "\<forall>i<length files.
          (\<forall>e. file_outcome env files apiKey i = Some (Inl e) \<longrightarrow>
             final ! i = (init ! i)\<lparr>status := Error, fr_error := thrown_message e\<rparr>) \<and>
          (\<forall>err. file_outcome env files apiKey i = Some (Inr \<lparr>data = None, error = Some err\<rparr>) \<longrightarrow>
             final ! i = (init ! i)\<lparr>status := Error, fr_error := message err\<rparr>) \<and>
          (\<forall>d. file_outcome env files apiKey i = Some (Inr \<lparr>data = Some d, error = None\<rparr>) \<longrightarrow>
             final ! i = (init ! i)\<lparr>status := Success, extractedText := ocr_text d,
                                    tokensUsed := ocr_tokensUsed d\<rparr>) \<and>
          (\<exists>out. file_outcome env files apiKey i = Some out \<and>
             ((\<exists>e. out = Inl e) \<or> (\<exists>err. out = Inr \<lparr>data = None, error = Some err\<rparr>) \<or>
              (\<exists>d. out = Inr \<lparr>data = Some d, error = None\<rparr>)))"
      using processFiles_loop_recorded [OF len order_refl H] cases by (simp add: final)
    have c6: "length final = length files"
      using processFiles_loop_length [OF len order_refl H] by (simp add: final)
    have c7: "results_after init tr = final"
      using after by (simp add: tr final)
    from c1 c2 c3 c4 c5 c6 c7 show ?thesis by blast
  qed
  from returns run show ?thesis by blast
qed

text \<open>The theorem at the example runs.\<close>

theorem processFiles_tracks_status_witness:
  "processFiles env_first_ok [file_a, file_b] (js ''key'') (initial_results [file_a, file_b]) \<noteq> None \<and>
   processing_count [a_processing, b_pending] \<le> 1 \<and>
   processing_count [a_done, b_processing] \<le> 1 \<and>
   status ([a_processing, b_pending] ! 0) = Processing \<and>
   status ([a_processing, b_pending] ! 1) = Pending \<and>
   history 0 (initial_results [file_a, file_b])
     (snd (the (processFiles env_first_ok [file_a, file_b] (js ''key'')
        (initial_results [file_a, file_b])))) =
     [Pending, Processing, Success] \<and>
   history 1 (initial_results [file_a, file_b])
     (snd (the (processFiles env_first_ok [file_a, file_b] (js ''key'')
        (initial_results [file_a, file_b])))) =
     [Pending, Processing, Error] \<and>
   [a_done, b_failed] ! 0 =
     (initial_results [file_a, file_b] ! 0)
       \<lparr>status := Success, extractedText := JStr (js ''# Title''), tokensUsed := JNum 42\<rparr> \<and>
   [a_done, b_failed] ! 1 =
     (initial_results [file_a, file_b] ! 1)
       \<lparr>status := Error, fr_error := JStr (js ''Failed to read file'')\<rparr> \<and>
   [a_denied] ! 0 =
     (initial_results [file_a] ! 0)
       \<lparr>status := Error,
        fr_error := JStr (js ''Invalid API key. Please update your key in Settings.'')\<rparr> \<and>
   processFiles env_stalled [file_a] (js ''key'') (initial_results [file_a]) = None"
proof -
  let ?run = "the (processFiles env_first_ok [file_a, file_b] (js ''key'')
      (initial_results [file_a, file_b]))"
  have run: "processFiles env_first_ok [file_a, file_b] (js ''key'') (initial_results [file_a, file_b]) =
      Some ([a_done, b_failed], snd ?run)"
    by (simp add: example_run)
  note T = processFiles_tracks_status [where env = env_first_ok and files = "[file_a, file_b]"
      and apiKey = "js ''key''", THEN conjunct2, rule_format, OF run]
  have z: "processFiles env_first_ok [file_a, file_b] (js ''key'') (initial_results [file_a, file_b]) \<noteq> None"
    by (simp add: example_run)
  from T have "\<forall>s\<in>set (initial_results [file_a, file_b] # snapshots (snd ?run)).
      processing_count s \<le> 1"
    by (rule conjunct1)
  then have a: "processing_count [a_processing, b_pending] \<le> 1 \<and>
      processing_count [a_done, b_processing] \<le> 1"
    by (simp add: example_run_observed)
  from T have "\<forall>(j, s)\<in>set (call_contexts (initial_results [file_a, file_b]) (snd ?run)).
        status (s ! j) = Processing \<and>
        (\<forall>i<j. status (s ! i) = Success \<or> status (s ! i) = Error) \<and>
        (\<forall>i. j < i \<and> i < length [file_a, file_b] \<longrightarrow> status (s ! i) = Pending)"
    by blast
  then have b: "status ([a_processing, b_pending] ! 0) = Processing \<and>
      status ([a_processing, b_pending] ! 1) = Pending"
    by (simp add: example_run_observed example_statuses)
  from T have "\<forall>i<length [file_a, file_b].
        history i (initial_results [file_a, file_b]) (snd ?run) = [Pending, Processing, Success] \<and>
        status ([a_done, b_failed] ! i) = Success \<and>
        extractedText ([a_done, b_failed] ! i) \<noteq> JUndefined \<and>
        tokensUsed ([a_done, b_failed] ! i) \<noteq> JUndefined \<or>
        history i (initial_results [file_a, file_b]) (snd ?run) = [Pending, Processing, Error] \<and>
        status ([a_done, b_failed] ! i) = Error \<and>
        fr_error ([a_done, b_failed] ! i) \<noteq> JUndefined"
    by blast
  from this [rule_format, of 0] this [rule_format, of 1]
  have c: "history 0 (initial_results [file_a, file_b]) (snd ?run) = [Pending, Processing, Success] \<and>
      history 1 (initial_results [file_a, file_b]) (snd ?run) = [Pending, Processing, Error]"
    by (simp add: example_statuses)
  from T have rec: "\<forall>i<length [file_a, file_b].
          (\<forall>e. file_outcome env_first_ok [file_a, file_b] (js ''key'') i = Some (Inl e) \<longrightarrow>
             [a_done, b_failed] ! i =
               (initial_results [file_a, file_b] ! i)\<lparr>status := Error, fr_error := thrown_message e\<rparr>) \<and>
          (\<forall>err. file_outcome env_first_ok [file_a, file_b] (js ''key'') i =
                Some (Inr \<lparr>data = None, error = Some err\<rparr>) \<longrightarrow>
             [a_done, b_failed] ! i =
               (initial_results [file_a, file_b] ! i)\<lparr>status := Error, fr_error := message err\<rparr>) \<and>
          (\<forall>d. file_outcome env_first_ok [file_a, file_b] (js ''key'') i =
                Some (Inr \<lparr>data = Some d, error = None\<rparr>) \<longrightarrow>
             [a_done, b_failed] ! i =
               (initial_results [file_a, file_b] ! i)\<lparr>status := Success, extractedText := ocr_text d,
                                    tokensUsed := ocr_tokensUsed d\<rparr>) \<and>
          (\<exists>out. file_outcome env_first_ok [file_a, file_b] (js ''key'') i = Some out \<and>
             ((\<exists>e. out = Inl e) \<or> (\<exists>err. out = Inr \<lparr>data = None, error = Some err\<rparr>) \<or>
              (\<exists>d. out = Inr \<lparr>data = Some d, error = None\<rparr>)))"
    by blast
  from rec [rule_format, of 0] rec [rule_format, of 1]
  have d: "[a_done, b_failed] ! 0 =
     (initial_results [file_a, file_b] ! 0)
       \<lparr>status := Success, extractedText := JStr (js ''# Title''), tokensUsed := JNum 42\<rparr> \<and>
   [a_done, b_failed] ! 1 =
     (initial_results [file_a, file_b] ! 1)
       \<lparr>status := Error, fr_error := JStr (js ''Failed to read file'')\<rparr>"
    by (simp add: example_outcomes)
  have run': "processFiles env_denied [file_a] (js ''key'') (initial_results [file_a]) =
      Some ([a_denied], snd (the (processFiles env_denied [file_a] (js ''key'')
        (initial_results [file_a]))))"
    by (simp add: example_denied)
  note T' = processFiles_tracks_status [where env = env_denied and files = "[file_a]"
      and apiKey = "js ''key''", THEN conjunct2, rule_format, OF run']
  from T' have rec': "\<forall>i<length [file_a].
          (\<forall>e. file_outcome env_denied [file_a] (js ''key'') i = Some (Inl e) \<longrightarrow>
             [a_denied] ! i =
               (initial_results [file_a] ! i)\<lparr>status := Error, fr_error := thrown_message e\<rparr>) \<and>
          (\<forall>err. file_outcome env_denied [file_a] (js ''key'') i =
                Some (Inr \<lparr>data = None, error = Some err\<rparr>) \<longrightarrow>
             [a_denied] ! i =
               (initial_results [file_a] ! i)\<lparr>status := Error, fr_error := message err\<rparr>) \<and>
          (\<forall>d. file_outcome env_denied [file_a] (js ''key'') i =
                Some (Inr \<lparr>data = Some d, error = None\<rparr>) \<longrightarrow>
             [a_denied] ! i =
               (initial_results [file_a] ! i)\<lparr>status := Success, extractedText := ocr_text d,
                                    tokensUsed := ocr_tokensUsed d\<rparr>) \<and>
          (\<exists>out. file_outcome env_denied [file_a] (js ''key'') i = Some out \<and>
             ((\<exists>e. out = Inl e) \<or> (\<exists>err. out = Inr \<lparr>data = None, error = Some err\<rparr>) \<or>
              (\<exists>d. out = Inr \<lparr>data = Some d, error = None\<rparr>)))"
    by blast
  from rec' [rule_format, of 0]
  have e: "[a_denied] ! 0 =
     (initial_results [file_a] ! 0)
       \<lparr>status := Error,
        fr_error := JStr (js ''Invalid API key. Please update your key in Settings.'')\<rparr>"
    by (simp add: example_denied_outcome)
  have "\<exists>i<length [file_a]. \<not> answered env_stalled [file_a] (js ''key'') i"
    using example_stalled(1) by auto
  then have f: "processFiles env_stalled [file_a] (js ''key'') (initial_results [file_a]) = None"
    using processFiles_tracks_status [where env = env_stalled and files = "[file_a]"
      and apiKey = "js ''key''", THEN conjunct1]
    by blast
  from z a b c d e f show ?thesis by blast
qed

subsection \<open>processFiles: the delay between files\<close>

text \<open>
  Claim C5. In a run of \<open>processFiles\<close> over \<open>n\<close> files that returns (it does unless the
  body of a server answer never ends), the reads, requests and delays happen in this
  order: for each file in turn its read, its request to the OCR API if the read succeeded,
  and then, for every file but the last, one delay of 500 milliseconds. So there are
  \<open>n - 1\<close> delays, all of 500 ms whatever the files and the outcomes, one after each file
  \<open>i < n - 1\<close>, and the run does not end with a delay.
\<close>

theorem processFiles_delays:
  assumes "length results = length files"
  shows "(processFiles env files apiKey results = None \<longleftrightarrow>
            (\<exists>i<length files. \<not> answered env files apiKey i)) \<and>
         (\<forall>final tr. processFiles env files apiKey results = Some (final, tr) \<longrightarrow>
            timeline tr =
              concat (map (\<lambda>i. ReadFile i # file_requests env files apiKey i @
                                 (if i + 1 < length files then [Sleep 500] else [])) [0..<length files]) \<and>
            delays tr = replicate (length files - 1) 500 \<and>
            (files \<noteq> [] \<longrightarrow> (\<forall>ms. last (timeline tr) \<noteq> Sleep ms)))"
proof -
  have returns: "processFiles env files apiKey results = None \<longleftrightarrow>
        (\<exists>i<length files. \<not> answered env files apiKey i)"
    by (rule processFiles_None)
  have run: "timeline tr =
              concat (map (\<lambda>i. ReadFile i # file_requests env files apiKey i @
                                 (if i + 1 < length files then [Sleep 500] else [])) [0..<length files]) \<and>
            delays tr = replicate (length files - 1) 500 \<and>
            (files \<noteq> [] \<longrightarrow> (\<forall>ms. last (timeline tr) \<noteq> Sleep ms))"
    if ret: "processFiles env files apiKey results = Some (final, tr)" for final tr
  proof -
    have H: "\<forall>i<length files. answered env files apiKey i"
      using ret returns by auto
    from processFiles_timeline [OF assms H] ret
    have tl: "timeline tr =
              concat (map (\<lambda>i. ReadFile i # file_requests env files apiKey i @
                                 (if i + 1 < length files then [Sleep 500] else [])) [0..<length files])"
      and dl: "delays tr = replicate (length files - 1) 500"
      by auto
    have "files \<noteq> [] \<longrightarrow> (\<forall>ms. last (timeline tr) \<noteq> Sleep ms)"
      unfolding tl using timeline_last_not_sleep [of files env apiKey] by blast
    with tl dl show ?thesis by blast
  qed
  from returns run show ?thesis by blast
qed

text \<open>The theorem at the example run.\<close>

theorem processFiles_delays_witness:
  "timeline (snd (the (processFiles env_first_ok [file_a, file_b] (js ''key'')
      (initial_results [file_a, file_b])))) =
     [ReadFile 0,
      OcrCall 0 (extractText_request (Some (js ''AAAA'')) (js ''key'') (js ''image/jpeg'') document),
      Sleep 500, ReadFile 1] \<and>
   delays (snd (the (processFiles env_first_ok [file_a, file_b] (js ''key'')
      (initial_results [file_a, file_b])))) = [500] \<and>
   last (timeline (snd (the (processFiles env_first_ok [file_a, file_b] (js ''key'')
     (initial_results [file_a, file_b]))))) \<noteq> Sleep 500"
proof -
  let ?run = "the (processFiles env_first_ok [file_a, file_b] (js ''key'')
      (initial_results [file_a, file_b]))"
  have run: "processFiles env_first_ok [file_a, file_b] (js ''key'') (initial_results [file_a, file_b]) =
      Some ([a_done, b_failed], snd ?run)"
    by (simp add: example_run)
  have len: "length (initial_results [file_a, file_b]) = length [file_a, file_b]"
    by (simp add: initial_results_def)
  have r0: "file_requests env_first_ok [file_a, file_b] (js ''key'') 0 =
      [OcrCall 0 (extractText_request (Some (js ''AAAA'')) (js ''key'') (js ''image/jpeg'') document)]"
    by (simp add: file_requests_def fileToBase64_def nth_opt_def env_first_ok_def
        split_comma_second_def file_a_def js_def)
  have r1: "file_requests env_first_ok [file_a, file_b] (js ''key'') (Suc 0) = []"
    by (simp add: file_requests_def fileToBase64_def nth_opt_def env_first_ok_def)
  have u: "[0..<length [file_a, file_b]] = [0, 1]"
    by (simp add: upt_rec)
  note T = processFiles_delays [OF len, of env_first_ok "js ''key''", THEN conjunct2,
      rule_format, OF run]
  from T have "timeline (snd ?run) =
      concat (map (\<lambda>i. ReadFile i # file_requests env_first_ok [file_a, file_b] (js ''key'') i @
                         (if i + 1 < length [file_a, file_b] then [Sleep 500] else []))
                [0..<length [file_a, file_b]])"
    by (rule conjunct1)
  then have a: "timeline (snd ?run) =
     [ReadFile 0,
      OcrCall 0 (extractText_request (Some (js ''AAAA'')) (js ''key'') (js ''image/jpeg'') document),
      Sleep 500, ReadFile 1]"
    by (simp add: u r0 r1 numeral_2_eq_2)
  from T have b: "delays (snd ?run) = replicate (length [file_a, file_b] - 1) 500"
    by blast
  from T have "[file_a, file_b] \<noteq> [] \<longrightarrow> (\<forall>ms. last (timeline (snd ?run)) \<noteq> Sleep ms)"
    by blast
  then have c: "last (timeline (snd ?run)) \<noteq> Sleep 500"
    by simp
  from a b c show ?thesis by (simp add: numeral_2_eq_2)
qed

subsection \<open>retryFailed\<close>

lemma retryFailed_step_shape:
  assumes "i < length rs" "answered env files apiKey i"
  shows "\<exists>fin.
     retryFailed_step env files apiKey i (rs, tr) =
       Some (rs[i := fin],
        tr @ [SetCurrentIndex i,
              SetResults (rs[i := (rs ! i)\<lparr>status := Processing, fr_error := JUndefined\<rparr>]),
              ReadFile i]
           @ file_requests env files apiKey i @ [SetResults (rs[i := fin]), Sleep 500]) \<and>
     (status fin = Error \<or> status fin = Success)"
proof (cases "fileToBase64 env i (nth_opt files i)")
  case (Inl e)
  then show ?thesis
    using assms
    by (fastforce simp add: retryFailed_step_def array_set_def spread_status_def Let_def
        file_requests_def)
next
  case (Inr b)
  let ?rt = "runtime_for env i"
  let ?mime = "case nth_opt files i of Some f' \<Rightarrow> type f' | None \<Rightarrow> []"
  have req: "fst (extractText3 ?rt b apiKey ?mime) = [extractText_request b apiKey ?mime document]"
    by (simp add: extractText3_def extractText_requests)
  from assms(2) Inr obtain x where x: "snd (extractText3 ?rt b apiKey ?mime) = Some x"
    by (auto simp add: answered_def file_outcome_def)
  then have "snd (extractText ?rt b apiKey ?mime document) = Some x"
    by (simp add: extractText3_def)
  from extractText_result [OF this]
  show ?thesis
  proof
    assume "\<exists>e. x = \<lparr>data = None, error = Some e\<rparr> \<and> message e \<noteq> JUndefined"
    then obtain e where e: "x = \<lparr>data = None, error = Some e\<rparr>"
      by blast
    show ?thesis
      using assms(1) Inr req x e
      by (fastforce simp add: retryFailed_step_def array_set_def spread_status_def Let_def
          file_requests_def split_beta)
  next
    assume "\<exists>d. x = \<lparr>data = Some d, error = None\<rparr> \<and>
        ocr_text d \<noteq> JUndefined \<and> ocr_tokensUsed d \<noteq> JUndefined"
    then obtain d where d: "x = \<lparr>data = Some d, error = None\<rparr>"
      by blast
    show ?thesis
      using assms(1) Inr req x d
      by (fastforce simp add: retryFailed_step_def array_set_def spread_status_def Let_def
          file_requests_def split_beta)
  qed
qed

lemma retryFailed_step_None:
  "retryFailed_step env files apiKey i st = None \<longleftrightarrow> \<not> answered env files apiKey i"
  by (auto simp add: retryFailed_step_def answered_def file_outcome_def Let_def
      split_beta split: sum.splits option.splits)

lemma fold_bind_None: "fold (\<lambda>i st. Option.bind st (f i)) idxs None = None"
  by (induction idxs) simp_all

text \<open>The loop of \<open>retryFailed\<close> gets through exactly when the work on each of the
  files it retries comes to an end.\<close>

lemma retryFailed_fold_None:
  "fold (\<lambda>i st. Option.bind st (retryFailed_step env files apiKey i)) idxs (Some st) = None \<longleftrightarrow>
     (\<exists>i\<in>set idxs. \<not> answered env files apiKey i)"
proof (induction idxs arbitrary: st)
  case Nil
  then show ?case by simp
next
  case (Cons i idxs)
  show ?case
  proof (cases "retryFailed_step env files apiKey i st")
    case None
    then show ?thesis
      using retryFailed_step_None [of env files apiKey i st] by (simp add: fold_bind_None)
  next
    case (Some st')
    then have "answered env files apiKey i"
      using retryFailed_step_None [of env files apiKey i st] by auto
    then show ?thesis using Some Cons.IH [of st'] by simp
  qed
qed

lemma retryFailed_fold:
  assumes "\<forall>i\<in>set idxs. i < length rs" "\<forall>i\<in>set idxs. answered env files apiKey i"
  shows "\<exists>rs' tr'.
     fold (\<lambda>i st. Option.bind st (retryFailed_step env files apiKey i)) idxs (Some (rs, tr)) =
       Some (rs', tr @ tr') \<and>
     length rs' = length rs \<and>
     (\<forall>j. j \<notin> set idxs \<longrightarrow> rs' ! j = rs ! j) \<and>
     (\<forall>s\<in>set (snapshots tr'). length s = length rs \<and> (\<forall>j. j \<notin> set idxs \<longrightarrow> s ! j = rs ! j)) \<and>
     timeline tr' = concat (map (\<lambda>i. ReadFile i # file_requests env files apiKey i @ [Sleep 500]) idxs) \<and>
     reads tr' = idxs \<and>
     ocr_calls tr' = filter (readable env files) idxs \<and>
     (idxs = [] \<longrightarrow> tr' = [])"
  using assms
proof (induction idxs arbitrary: rs tr)
  case Nil
  then show ?case by simp
next
  case (Cons i idxs)
  from Cons.prems have i: "i < length rs" and ans: "answered env files apiKey i" by simp_all
  from retryFailed_step_shape [OF i ans, of tr]
  obtain fin where step: "retryFailed_step env files apiKey i (rs, tr) =
       Some (rs[i := fin],
        tr @ [SetCurrentIndex i,
              SetResults (rs[i := (rs ! i)\<lparr>status := Processing, fr_error := JUndefined\<rparr>]),
              ReadFile i]
           @ file_requests env files apiKey i @ [SetResults (rs[i := fin]), Sleep 500])"
    by blast
  let ?rs1 = "rs[i := fin]"
  let ?new = "[SetCurrentIndex i,
              SetResults (rs[i := (rs ! i)\<lparr>status := Processing, fr_error := JUndefined\<rparr>]),
              ReadFile i]
           @ file_requests env files apiKey i @ [SetResults (rs[i := fin]), Sleep 500]"
  have b1: "\<forall>i\<in>set idxs. i < length ?rs1" using Cons.prems by simp
  have b2: "\<forall>i\<in>set idxs. answered env files apiKey i" using Cons.prems by simp
  from Cons.IH [OF b1 b2, of "tr @ ?new"]
  obtain rs' tr' where
    f: "fold (\<lambda>i st. Option.bind st (retryFailed_step env files apiKey i)) idxs
          (Some (?rs1, tr @ ?new)) = Some (rs', (tr @ ?new) @ tr')"
    and l: "length rs' = length ?rs1"
    and u: "\<forall>j. j \<notin> set idxs \<longrightarrow> rs' ! j = ?rs1 ! j"
    and sn: "\<forall>s\<in>set (snapshots tr'). length s = length ?rs1 \<and> (\<forall>j. j \<notin> set idxs \<longrightarrow> s ! j = ?rs1 ! j)"
    and tl: "timeline tr' = concat (map (\<lambda>i. ReadFile i # file_requests env files apiKey i @ [Sleep 500]) idxs)"
    and rd: "reads tr' = idxs"
    and oc: "ocr_calls tr' = filter (readable env files) idxs"
    by blast
  have 1: "fold (\<lambda>i st. Option.bind st (retryFailed_step env files apiKey i)) (i # idxs)
        (Some (rs, tr)) = Some (rs', tr @ (?new @ tr'))"
    using f by (simp add: step)
  have 2: "length rs' = length rs" using l by simp
  have 3: "\<forall>j. j \<notin> set (i # idxs) \<longrightarrow> rs' ! j = rs ! j"
    using u by simp
  have 4: "\<forall>s\<in>set (snapshots (?new @ tr')). length s = length rs \<and>
      (\<forall>j. j \<notin> set (i # idxs) \<longrightarrow> s ! j = rs ! j)"
    using sn by auto
  have 5: "timeline (?new @ tr') =
      concat (map (\<lambda>i. ReadFile i # file_requests env files apiKey i @ [Sleep 500]) (i # idxs))"
    using tl by simp
  have 6: "reads (?new @ tr') = i # idxs"
    using rd by simp
  have 7: "ocr_calls (?new @ tr') = filter (readable env files) (i # idxs)"
    using oc by simp
  from 1 2 3 4 5 6 7 show ?case by blast
qed

lemma failedIndices_set:
  "set (failedIndices results) = {i. i < length results \<and> status (results ! i) = Error}"
  by (auto simp add: failedIndices_def)

lemma failedIndices_sorted: "sorted_wrt (<) (failedIndices results)"
  by (simp add: failedIndices_def sorted_wrt_filter)

lemma retryFailed_None:
  "retryFailed env files apiKey results = None \<longleftrightarrow>
     (\<exists>i\<in>set (failedIndices results). \<not> answered env files apiKey i)"
proof (cases "failedIndices results = []")
  case True
  then show ?thesis by (simp add: retryFailed_def)
next
  case False
  have "retryFailed env files apiKey results = None \<longleftrightarrow>
      fold (\<lambda>i st. Option.bind st (retryFailed_step env files apiKey i))
        (failedIndices results) (Some (results, [SetIsProcessing True])) = None"
    using False by (simp add: retryFailed_def split: option.splits prod.splits)
  then show ?thesis by (simp add: retryFailed_fold_None)
qed

text \<open>
  Claim C6, as the code has it. \<open>retryFailed\<close> returns unless the body of a server
  answer for one of the retried files never ends. In a run that returns, it goes through
  exactly the files whose status is \<open>error\<close>, in ascending index order: each is read
  again and, when the read succeeds, a request for it goes to the OCR API; after each of
  them comes a delay of 500 ms. A file whose status is not \<open>error\<close> has the same result
  after the run as before it, and in every state given to \<open>setResults\<close> during the run.
  When no file has status \<open>error\<close>, nothing is read, no request is made, \<open>setResults\<close> is
  not called and the results are unchanged.
\<close>

theorem retryFailed_reprocesses_failed:
  "(retryFailed env files apiKey results = None \<longleftrightarrow>
      (\<exists>i\<in>set (failedIndices results). \<not> answered env files apiKey i)) \<and>
   (\<forall>final tr. retryFailed env files apiKey results = Some (final, tr) \<longrightarrow>
     reads tr = failedIndices results \<and>
     ocr_calls tr = filter (readable env files) (failedIndices results) \<and>
     timeline tr =
       concat (map (\<lambda>i. ReadFile i # file_requests env files apiKey i @ [Sleep 500])
                 (failedIndices results)) \<and>
     sorted_wrt (<) (failedIndices results) \<and>
     set (failedIndices results) = {i. i < length results \<and> status (results ! i) = Error} \<and>
     length final = length results \<and>
     (\<forall>i<length results. status (results ! i) \<noteq> Error \<longrightarrow>
        final ! i = results ! i \<and> (\<forall>s\<in>set (snapshots tr). s ! i = results ! i)) \<and>
     ((\<forall>i<length results. status (results ! i) \<noteq> Error) \<longrightarrow>
        final = results \<and> ocr_calls tr = [] \<and> reads tr = [] \<and> snapshots tr = []))"
proof -
  have returns: "retryFailed env files apiKey results = None \<longleftrightarrow>
      (\<exists>i\<in>set (failedIndices results). \<not> answered env files apiKey i)"
    by (rule retryFailed_None)
  have run: "reads tr = failedIndices results \<and>
     ocr_calls tr = filter (readable env files) (failedIndices results) \<and>
     timeline tr =
       concat (map (\<lambda>i. ReadFile i # file_requests env files apiKey i @ [Sleep 500])
                 (failedIndices results)) \<and>
     sorted_wrt (<) (failedIndices results) \<and>
     set (failedIndices results) = {i. i < length results \<and> status (results ! i) = Error} \<and>
     length final = length results \<and>
     (\<forall>i<length results. status (results ! i) \<noteq> Error \<longrightarrow>
        final ! i = results ! i \<and> (\<forall>s\<in>set (snapshots tr). s ! i = results ! i)) \<and>
     ((\<forall>i<length results. status (results ! i) \<noteq> Error) \<longrightarrow>
        final = results \<and> ocr_calls tr = [] \<and> reads tr = [] \<and> snapshots tr = [])"
    if ret: "retryFailed env files apiKey results = Some (final, tr)" for final tr
  proof (cases "failedIndices results = []")
    case True
    then have none: "\<forall>i<length results. status (results ! i) \<noteq> Error"
      using failedIndices_set [of results] by auto
    have r: "final = results" "tr = [Toast NoFailedFiles]"
      using True ret by (simp_all add: retryFailed_def)
    show ?thesis
      unfolding r using True none failedIndices_set [of results]
      by simp
  next
    case False
    have H: "\<forall>i\<in>set (failedIndices results). answered env files apiKey i"
      using ret returns by auto
    have bound: "\<forall>i\<in>set (failedIndices results). i < length results"
      by (simp add: failedIndices_set)
    from retryFailed_fold [OF bound H, of "[SetIsProcessing True]"]
    obtain rs' tr' where
      f: "fold (\<lambda>i st. Option.bind st (retryFailed_step env files apiKey i)) (failedIndices results)
            (Some (results, [SetIsProcessing True])) = Some (rs', [SetIsProcessing True] @ tr')"
      and l: "length rs' = length results"
      and u: "\<forall>j. j \<notin> set (failedIndices results) \<longrightarrow> rs' ! j = results ! j"
      and sn: "\<forall>s\<in>set (snapshots tr'). length s = length results \<and>
          (\<forall>j. j \<notin> set (failedIndices results) \<longrightarrow> s ! j = results ! j)"
      and tl: "timeline tr' = concat (map (\<lambda>i. ReadFile i # file_requests env files apiKey i @ [Sleep 500])
          (failedIndices results))"
      and rd: "reads tr' = failedIndices results"
      and oc: "ocr_calls tr' = filter (readable env files) (failedIndices results)"
      by blast
    have r: "final = rs'"
        "tr = [SetIsProcessing True] @ tr' @ [SetIsProcessing False, Toast RetryCompleted]"
      using False f ret by (simp_all add: retryFailed_def)
    from False obtain i0 where "i0 \<in> set (failedIndices results)"
      by (cases "failedIndices results") auto
    then have some: "\<not> (\<forall>i<length results. status (results ! i) \<noteq> Error)"
      by (auto simp add: failedIndices_set)
    have frame: "\<forall>i<length results. status (results ! i) \<noteq> Error \<longrightarrow>
          rs' ! i = results ! i \<and> (\<forall>s\<in>set (snapshots tr'). s ! i = results ! i)"
      using u sn by (simp add: failedIndices_set)
    have vac: "(\<forall>i<length results. status (results ! i) \<noteq> Error) \<longrightarrow>
          rs' = results \<and> ocr_calls ([SetIsProcessing True] @ tr' @ [SetIsProcessing False, Toast RetryCompleted]) = [] \<and>
          reads ([SetIsProcessing True] @ tr' @ [SetIsProcessing False, Toast RetryCompleted]) = [] \<and>
          snapshots ([SetIsProcessing True] @ tr' @ [SetIsProcessing False, Toast RetryCompleted]) = []"
      using some by blast
    have main: "reads ([SetIsProcessing True] @ tr' @ [SetIsProcessing False, Toast RetryCompleted]) =
          failedIndices results \<and>
       ocr_calls ([SetIsProcessing True] @ tr' @ [SetIsProcessing False, Toast RetryCompleted]) =
          filter (readable env files) (failedIndices results) \<and>
       timeline ([SetIsProcessing True] @ tr' @ [SetIsProcessing False, Toast RetryCompleted]) =
         concat (map (\<lambda>i. ReadFile i # file_requests env files apiKey i @ [Sleep 500])
                   (failedIndices results)) \<and>
       length rs' = length results \<and>
       (\<forall>i<length results. status (results ! i) \<noteq> Error \<longrightarrow>
          rs' ! i = results ! i \<and>
          (\<forall>s\<in>set (snapshots ([SetIsProcessing True] @ tr' @ [SetIsProcessing False, Toast RetryCompleted])).
             s ! i = results ! i))"
      using l tl rd oc frame by simp
    show ?thesis
      unfolding r
      using main vac failedIndices_sorted [of results] failedIndices_set [of results]
      by blast
  qed
  from returns run show ?thesis by blast
qed

text \<open>An example retry: the first file was extracted, the second had failed and can
  now be read.\<close>

lemma example_retry:
  "retryFailed env_readable [file_a, file_b] (js ''key'') [a_done, b_failed] =
     Some ([a_done, b_done],
      [SetIsProcessing True,
       SetCurrentIndex 1, SetResults [a_done, b_processing], ReadFile 1,
       OcrCall 1 (extractText_request (Some (js ''BBBB'')) (js ''key'') (js ''image/png'') document),
       SetResults [a_done, b_done], Sleep 500,
       SetIsProcessing False, Toast RetryCompleted])"
  by (simp add: retryFailed_def failedIndices_def retryFailed_step_def Let_def upt_rec
      env_readable_def file_a_def file_b_def array_set_def spread_status_def nth_opt_def
      fileToBase64_def split_comma_second_def extractText3_def extractText_def extractText_try_def
      await_fetch_def respond_def ok_response_def TIMEOUT_MS_def response_ok_def get_prop_def
      nullish_def opt_prop_def opt_index0_def js_or_def a_done_def b_failed_def b_done_def
      b_processing_def result_of_def js_def)

lemma example_no_retry:
  "retryFailed env_readable [file_a, file_b] (js ''key'') [a_done, a_done] =
     Some ([a_done, a_done], [Toast NoFailedFiles])"
  by (simp add: retryFailed_def failedIndices_def upt_rec a_done_def result_of_def)

text \<open>The theorem at the example retry, and at a state with no failed file.\<close>

theorem retryFailed_reprocesses_failed_witness:
  "retryFailed env_readable [file_a, file_b] (js ''key'') [a_done, b_failed] \<noteq> None \<and>
   reads (snd (the (retryFailed env_readable [file_a, file_b] (js ''key'') [a_done, b_failed]))) = [1] \<and>
   ocr_calls (snd (the (retryFailed env_readable [file_a, file_b] (js ''key'') [a_done, b_failed]))) = [1] \<and>
   fst (the (retryFailed env_readable [file_a, file_b] (js ''key'') [a_done, b_failed])) ! 0 = a_done \<and>
   [a_done, b_processing] ! 0 = a_done \<and>
   length (fst (the (retryFailed env_readable [file_a, file_b] (js ''key'') [a_done, b_failed]))) = 2 \<and>
   fst (the (retryFailed env_readable [file_a, file_b] (js ''key'') [a_done, a_done])) = [a_done, a_done] \<and>
   ocr_calls (snd (the (retryFailed env_readable [file_a, file_b] (js ''key'') [a_done, a_done]))) = []"
proof -
  let ?run = "the (retryFailed env_readable [file_a, file_b] (js ''key'') [a_done, b_failed])"
  let ?run' = "the (retryFailed env_readable [file_a, file_b] (js ''key'') [a_done, a_done])"
  have run: "retryFailed env_readable [file_a, file_b] (js ''key'') [a_done, b_failed] =
      Some (fst ?run, snd ?run)"
    by (simp add: example_retry)
  have run': "retryFailed env_readable [file_a, file_b] (js ''key'') [a_done, a_done] =
      Some (fst ?run', snd ?run')"
    by (simp add: example_no_retry)
  note T = retryFailed_reprocesses_failed [where env = env_readable and files = "[file_a, file_b]"
      and apiKey = "js ''key''" and results = "[a_done, b_failed]", THEN conjunct2,
      rule_format, OF run]
  note T' = retryFailed_reprocesses_failed [where env = env_readable and files = "[file_a, file_b]"
      and apiKey = "js ''key''" and results = "[a_done, a_done]", THEN conjunct2,
      rule_format, OF run']
  have st: "status a_done = Success" "status b_failed = Error"
    by (simp_all add: a_done_def b_failed_def result_of_def)
  have fi: "failedIndices [a_done, b_failed] = [1]"
    by (simp add: failedIndices_def upt_rec st)
  have rd: "readable env_readable [file_a, file_b] (Suc 0)"
    by (simp add: readable_def fileToBase64_def nth_opt_def env_readable_def)
  have z: "retryFailed env_readable [file_a, file_b] (js ''key'') [a_done, b_failed] \<noteq> None"
    by (simp add: example_retry)
  have a: "reads (snd ?run) = [1] \<and> ocr_calls (snd ?run) = [1] \<and> length (fst ?run) = 2"
    using T by (simp add: fi rd)
  from T have "\<forall>i<length [a_done, b_failed]. status ([a_done, b_failed] ! i) \<noteq> Error \<longrightarrow>
        fst ?run ! i = [a_done, b_failed] ! i \<and>
        (\<forall>s\<in>set (snapshots (snd ?run)). s ! i = [a_done, b_failed] ! i)"
    by blast
  from this [rule_format, of 0]
  have b: "fst ?run ! 0 = a_done \<and> [a_done, b_processing] ! 0 = a_done"
    by (simp add: st)
  from T' have "(\<forall>i<length [a_done, a_done]. status ([a_done, a_done] ! i) \<noteq> Error) \<longrightarrow>
      fst ?run' = [a_done, a_done] \<and> ocr_calls (snd ?run') = []"
    by blast
  moreover have "\<forall>i<length [a_done, a_done]. status ([a_done, a_done] ! i) \<noteq> Error"
    by (simp add: st less_Suc_eq)
  ultimately have c: "fst ?run' = [a_done, a_done] \<and> ocr_calls (snd ?run') = []"
    by blast
  from z a b c show ?thesis by blast
qed

text \<open>Claim C6 as stated has the OCR API invoked for every file in status \<open>error\<close>.
  A failed file that still cannot be read is in status \<open>error\<close>, and \<open>retryFailed\<close> makes
  no request for it: \<open>fileToBase64\<close> rejects and the \<open>catch\<close> records the error.\<close>

theorem retryFailed_unreadable_counterexample:
  "failedIndices [a_done, b_failed] = [1] \<and>
   retryFailed env_unreadable [file_a, file_b] (js ''key'') [a_done, b_failed] =
     Some ([a_done, b_failed],
           [SetIsProcessing True, SetCurrentIndex 1,
            SetResults [a_done, b_failed\<lparr>status := Processing, fr_error := JUndefined\<rparr>],
            ReadFile 1, SetResults [a_done, b_failed], Sleep 500,
            SetIsProcessing False, Toast RetryCompleted]) \<and>
   ocr_calls [SetIsProcessing True, SetCurrentIndex 1,
            SetResults [a_done, b_failed\<lparr>status := Processing, fr_error := JUndefined\<rparr>],
            ReadFile 1, SetResults [a_done, b_failed], Sleep 500,
            SetIsProcessing False, Toast RetryCompleted] = []"
  by (simp add: retryFailed_def failedIndices_def retryFailed_step_def Let_def upt_rec
      env_unreadable_def array_set_def spread_status_def nth_opt_def
      fileToBase64_def a_done_def b_failed_def result_of_def)

subsection \<open>handleDownloadZip\<close>

text \<open>The name of an entry: a final extension is replaced by \<open>.txt\<close>; a name without a
  dot, or ending in a dot, is kept as it is.\<close>

lemma replace_extension_with_extension:
  assumes "ext \<noteq> []" "0x2E \<notin> set ext"
  shows "replace_extension (stem @ 0x2E # ext) = stem @ js ''.txt''"
proof (induction stem)
  case Nil
  then show ?case using assms by simp
next
  case (Cons c stem)
  then show ?case by simp
qed

lemma replace_extension_no_dot:
  "0x2E \<notin> set s \<Longrightarrow> replace_extension s = s"
  by (induction s) simp_all

lemma replace_extension_trailing_dot:
  "replace_extension (s @ [0x2E]) = s @ [0x2E]"
  by (induction s) simp_all

lemma zip_file_fresh:
  "n \<notin> fst ` set z \<Longrightarrow> zip_file z n d = z @ [(n, d)]"
  by (induction z) auto

lemma zip_file_map_fst:
  "map fst (zip_file z n d) = (if n \<in> set (map fst z) then map fst z else map fst z @ [n])"
proof (induction z)
  case Nil
  then show ?case by simp
next
  case (Cons p z)
  obtain n' d' where p: "p = (n', d')" by (cases p)
  show ?case
  proof (cases "n' = n")
    case True
    then show ?thesis by (simp add: p)
  next
    case False
    then show ?thesis using Cons.IH by (simp add: p)
  qed
qed

lemma zip_file_names:
  "fst ` set (zip_file z n d) = insert n (fst ` set z)"
proof -
  have "set (map fst (zip_file z n d)) = insert n (set (map fst z))"
    by (auto simp add: zip_file_map_fst)
  then show ?thesis by simp
qed

lemma add_results_distinct:
  assumes "\<forall>r\<in>set rs. filename r \<noteq> None"
    "distinct (map (\<lambda>r. replace_extension (the (filename r))) rs)"
    "\<forall>r\<in>set rs. replace_extension (the (filename r)) \<notin> fst ` set z"
  shows "add_results rs z =
     Some (z @ map (\<lambda>r. (replace_extension (the (filename r)), js_or (extractedText r) (JStr []))) rs)"
  using assms
proof (induction rs arbitrary: z)
  case Nil
  then show ?case by simp
next
  case (Cons r rs)
  from Cons.prems(1) obtain fname where fname: "filename r = Some fname" by auto
  let ?z = "zip_file z (replace_extension fname) (js_or (extractedText r) (JStr []))"
  have fresh: "replace_extension fname \<notin> fst ` set z"
    using Cons.prems(3) fname by auto
  have z: "?z = z @ [(replace_extension fname, js_or (extractedText r) (JStr []))]"
    using fresh by (rule zip_file_fresh)
  have 1: "\<forall>r\<in>set rs. filename r \<noteq> None" using Cons.prems(1) by simp
  have 2: "distinct (map (\<lambda>r. replace_extension (the (filename r))) rs)"
    using Cons.prems(2) by simp
  have ne: "replace_extension (the (filename r')) \<noteq> replace_extension fname" if "r' \<in> set rs" for r'
  proof
    assume "replace_extension (the (filename r')) = replace_extension fname"
    then have "replace_extension fname \<in> (\<lambda>r. replace_extension (the (filename r))) ` set rs"
      using that by force
    then show False using Cons.prems(2) fname by simp
  qed
  have 3: "\<forall>r'\<in>set rs. replace_extension (the (filename r')) \<notin> fst ` set ?z"
    using Cons.prems(3) ne by (simp add: zip_file_names)
  show ?case
    using Cons.IH [OF 1 2 3] by (simp add: fname z)
qed

lemma handleDownloadZip_distinct:
  assumes "\<forall>r\<in>set results. filename r \<noteq> None"
    "distinct (map (\<lambda>r. replace_extension (the (filename r)))
               (filter (\<lambda>r. status r = Success) results))"
  shows "handleDownloadZip today results =
     (if filter (\<lambda>r. status r = Success) results = [] then NotSaved NothingToDownload
      else Saved (js ''ocr-results-'' @ today @ js ''.zip'')
             (map (\<lambda>r. (replace_extension (the (filename r)), js_or (extractedText r) (JStr [])))
                (filter (\<lambda>r. status r = Success) results))
             (DownloadedZip (length (filter (\<lambda>r. status r = Success) results))))"
proof -
  have "add_results (filter (\<lambda>r. status r = Success) results) [] =
     Some ([] @ map (\<lambda>r. (replace_extension (the (filename r)), js_or (extractedText r) (JStr [])))
                (filter (\<lambda>r. status r = Success) results))"
    using assms by (intro add_results_distinct) auto
  then show ?thesis
    by (simp add: handleDownloadZip_def Let_def)
qed

text \<open>
  Claim C7 at two extracted files named \<open>scan.jpg\<close> and \<open>scan.png\<close>. Both are stored
  under the name \<open>scan.txt\<close>; the second call of \<open>zip.file\<close> replaces the data of the
  first, so the archive has one entry, holding the text of the second file, while the
  message reports two files. When the names made from the extracted files are pairwise
  distinct the archive has one entry for each of them (lemma
  \<open>handleDownloadZip_distinct\<close>).
\<close>

theorem handleDownloadZip_same_stem:
  "handleDownloadZip (js ''2025-01-01'') [first_page, second_page] =
     Saved (js ''ocr-results-2025-01-01.zip'') [(js ''scan.txt'', JStr (js ''second''))]
       (DownloadedZip 2)"
  by (simp add: handleDownloadZip_def Let_def first_page_def second_page_def result_of_def
      file_a_def file_b_def js_or_def js_def)

subsection \<open>base64\<close>

lemma unat_of_nat16: "n < 65536 \<Longrightarrow> unat (of_nat n :: 16 word) = n"
  by (simp add: unat_of_nat)

lemma unat_of_nat8: "n < 256 \<Longrightarrow> unat (of_nat n :: 8 word) = n"
  by (simp add: unat_of_nat)

lemma unat_b64char:
  "n < 64 \<Longrightarrow> unat (b64char n) =
     (if n < 26 then 65 + n else if n < 52 then 71 + n else if n < 62 then n - 4
      else if n = 62 then 43 else 47)"
  by (auto simp add: b64char_def unat_of_nat16 simp del: of_nat_add of_nat_diff)

lemma b64val_b64char: "n < 64 \<Longrightarrow> b64val (b64char n) = Some n"
  by (auto simp add: b64val_def unat_b64char Let_def)

lemma b64char_not_pad: "n < 64 \<Longrightarrow> b64char n \<noteq> 0x3D"
proof
  assume "n < 64" "b64char n = 0x3D"
  then have "unat (b64char n) = 61" by simp
  then show False using \<open>n < 64\<close> by (auto simp add: unat_b64char split: if_splits)
qed

lemma b64char_not_ws: "n < 64 \<Longrightarrow> \<not> is_ascii_whitespace (b64char n)"
proof
  assume n: "n < 64" and "is_ascii_whitespace (b64char n)"
  then have "unat (b64char n) \<in> {9, 10, 12, 13, 32}"
    by (auto simp add: is_ascii_whitespace_def)
  then show False using n by (auto simp add: unat_b64char split: if_splits)
qed

lemma sextets_bound: "\<forall>b\<in>set bs. b < 256 \<Longrightarrow> \<forall>v\<in>set (sextets bs). v < 64"
  by (induction bs rule: sextets.induct) (auto simp add: less_mult_imp_div_less)

lemma length_sextets: "length (sextets bs) = (4 * length bs + 2) div 3"
  by (induction bs rule: sextets.induct) simp_all

lemma div_split: "y < k \<Longrightarrow> (x * k + y) div k = (x::nat)"
  by simp

lemma mod_split: "y < k \<Longrightarrow> (x * k + y) mod k = (y::nat)"
  by simp

lemma b64_decode_sextets: "\<forall>b\<in>set bs. b < 256 \<Longrightarrow> b64_decode (sextets bs) = bs"
proof (induction bs rule: sextets.induct)
  case 1
  then show ?case by simp
next
  case (2 a)
  have "a mod 4 * 16 div 16 = a mod 4" by simp
  then show ?case by simp
next
  case (3 a b)
  then have "b div 16 < 16" by (intro less_mult_imp_div_less) simp
  then have "(a mod 4 * 16 + b div 16) div 16 = a mod 4" "(a mod 4 * 16 + b div 16) mod 16 = b div 16"
    by (simp_all add: div_split mod_split)
  moreover have "b mod 16 * 4 div 4 = b mod 16" by simp
  ultimately show ?case by simp
next
  case (4 a b c rest)
  then have "b div 16 < 16" "c div 64 < 4" by (intro less_mult_imp_div_less; simp)+
  then have "(a mod 4 * 16 + b div 16) div 16 = a mod 4" "(a mod 4 * 16 + b div 16) mod 16 = b div 16"
    "(b mod 16 * 4 + c div 64) div 4 = b mod 16" "(b mod 16 * 4 + c div 64) mod 4 = c div 64"
    by (simp_all add: div_split mod_split)
  then show ?case using 4 by simp
qed


lemma unat_ucast_byte: "unat (ucast (b :: byte) :: jschar) = unat b"
proof -
  have "unat b < 2 ^ 8" using unsigned_less [of b] by simp
  then have "unat b < 2 ^ 16" by simp
  then show ?thesis by (simp add: unsigned_ucast_eq take_bit_nat_eq_self)
qed

lemma ucast_ucast_byte: "(ucast (ucast (b :: byte) :: jschar) :: byte) = b"
  by (rule ucast_up_ucast_id) (simp add: is_up)

lemma ucast_of_nat_byte: "(ucast (of_nat n :: jschar) :: byte) = of_nat n"
proof (rule unsigned_word_eqI [where ?'a = nat])
  have "take_bit 8 (take_bit 16 n) = take_bit 8 n"
    by (simp add: take_bit_take_bit)
  then show "unat (ucast (of_nat n :: jschar) :: byte) = unat (of_nat n :: byte)"
    by (simp add: unsigned_ucast_eq unsigned_of_nat)
qed

lemma mod3_cases:
  obtains q where "n = 3 * q" | q where "n = 3 * q + 1" | q where "n = 3 * q + (2::nat)"
proof -
  have n: "n = 3 * (n div 3) + n mod 3" by simp
  have "n mod 3 = 0 \<or> n mod 3 = 1 \<or> n mod 3 = 2" by linarith
  then show ?thesis
  proof (elim disjE)
    assume "n mod 3 = 0"
    with n have "n = 3 * (n div 3)" by simp
    then show ?thesis by (rule that(1))
  next
    assume "n mod 3 = 1"
    with n have "n = 3 * (n div 3) + 1" by simp
    then show ?thesis by (rule that(2))
  next
    assume "n mod 3 = 2"
    with n have "n = 3 * (n div 3) + 2" by simp
    then show ?thesis by (rule that(3))
  qed
qed

lemma d0: "(4 * (3 * q) + 2) div 3 = 4 * (q::nat)" by arith
lemma d1: "(4 * (3 * q + 1) + 2) div 3 = 4 * (q::nat) + 2" by arith
lemma d2: "(4 * (3 * q + 2) + 2) div 3 = 4 * (q::nat) + 3" by arith
lemma m0: "(3 * q) mod 3 = (0::nat)" by arith
lemma m1: "(3 * q + 1) mod 3 = (1::nat)" by arith
lemma m2: "(3 * q + 2) mod 3 = (2::nat)" by arith
lemma e0: "(4 * q) mod 4 = (0::nat)" by arith
lemma e2: "(4 * q + 2) mod 4 = (2::nat)" by arith
lemma e3: "(4 * q + 3) mod 4 = (3::nat)" by arith
lemma e4: "(4 * q + 2 + 2) mod 4 = (0::nat)" by arith
lemma e5: "(4 * q + 3 + 1) mod 4 = (0::nat)" by arith


lemma pad_length:
  "((4 * n + 2) div 3 + (3 - n mod 3) mod 3) mod 4 = (0::nat)"
proof (cases n rule: mod3_cases)
  case (1 q)
  show ?thesis unfolding 1 d0 m0 by (simp add: e0)
next
  case (2 q)
  show ?thesis unfolding 2 d1 m1 using e4 [of q] by simp
next
  case (3 q)
  show ?thesis unfolding 3 d2 m2 using e5 [of q] by simp
qed

lemma sextets_length_mod: "(4 * n + 2) div 3 mod 4 \<noteq> (1::nat)"
proof (cases n rule: mod3_cases)
  case (1 q)
  show ?thesis unfolding 1 d0 e0 by simp
next
  case (2 q)
  show ?thesis unfolding 2 d1 e2 by simp
next
  case (3 q)
  show ?thesis unfolding 3 d2 e3 by simp
qed

lemma pad_cases:
  "(3 - n mod 3) mod 3 = (0::nat) \<or> (3 - n mod 3) mod 3 = 1 \<and> 2 \<le> n \<or>
   (3 - n mod 3) mod 3 = 2 \<and> 1 \<le> n"
proof (cases n rule: mod3_cases)
  case (1 q)
  show ?thesis unfolding 1 m0 by simp
next
  case (2 q)
  show ?thesis unfolding 2 m1 by simp
next
  case (3 q)
  show ?thesis unfolding 3 m2 by simp
qed


lemma strip_padding_encode:
  assumes "\<forall>b\<in>set bs. b < 256"
  shows "strip_padding (b64_encode bs) = map b64char (sextets bs)"
proof -
  let ?xs = "map b64char (sextets bs)"
  let ?p = "(3 - length bs mod 3) mod 3"
  have vs: "\<forall>v\<in>set (sextets bs). v < 64"
    using assms by (rule sextets_bound)
  have len: "length (b64_encode bs) mod 4 = 0"
    using pad_length [of "length bs"] by (simp add: b64_encode_def length_sextets)
  have last_ok: "last ?xs \<noteq> 0x3D" if "?xs \<noteq> []"
  proof -
    from that have "last ?xs \<in> set ?xs" by (rule last_in_set)
    then obtain v where "v \<in> set (sextets bs)" "last ?xs = b64char v" by auto
    then show ?thesis using vs b64char_not_pad by metis
  qed
  from pad_cases [of "length bs"] consider
    (0) "?p = 0" | (1) "?p = 1" "2 \<le> length bs" | (2) "?p = 2" "1 \<le> length bs"
    by fastforce
  then show ?thesis
  proof cases
    case 0
    then have e: "b64_encode bs = ?xs" by (simp add: b64_encode_def)
    show ?thesis
      using last_ok by (auto simp add: e strip_padding_def)
  next
    case 1
    then have e: "b64_encode bs = ?xs @ [0x3D]" by (simp add: b64_encode_def)
    have "length (sextets bs) \<noteq> 0" using 1(2) by (simp add: length_sextets)
    then have ne: "?xs \<noteq> []" by simp
    show ?thesis
      using len last_ok [OF ne] ne by (simp add: e strip_padding_def)
  next
    case 2
    then have e: "b64_encode bs = ?xs @ [0x3D, 0x3D]"
      by (simp add: b64_encode_def numeral_2_eq_2)
    have b: "butlast (?xs @ [0x3D, 0x3D]) = ?xs @ [0x3D]"
      by (simp add: butlast_append)
    show ?thesis
      using len by (simp add: e strip_padding_def b)
  qed
qed

lemma no_whitespace_encode:
  assumes "\<forall>b\<in>set bs. b < 256"
  shows "filter (\<lambda>c. \<not> is_ascii_whitespace c) (b64_encode bs) = b64_encode bs"
proof -
  have "\<forall>v\<in>set (sextets bs). v < 64"
    using assms by (rule sextets_bound)
  then have "\<forall>c\<in>set (map b64char (sextets bs)). \<not> is_ascii_whitespace c"
    using b64char_not_ws by auto
  moreover have "\<not> is_ascii_whitespace 0x3D"
    by (simp add: is_ascii_whitespace_def)
  ultimately show ?thesis
    by (auto simp add: b64_encode_def filter_id_conv)
qed

lemma atob_b64_encode:
  assumes "\<forall>b\<in>set bs. b < 256"
  shows "atob (b64_encode bs) = Inr (map of_nat bs)"
proof -
  let ?xs = "map b64char (sextets bs)"
  have vs: "\<forall>v\<in>set (sextets bs). v < 64"
    using assms by (rule sextets_bound)
  have t: "strip_padding (filter (\<lambda>c. \<not> is_ascii_whitespace c) (b64_encode bs)) = ?xs"
    using assms by (simp add: no_whitespace_encode strip_padding_encode)
  have l: "length ?xs mod 4 \<noteq> 1"
    using sextets_length_mod [of "length bs"] by (simp add: length_sextets)
  have ok: "\<forall>c\<in>set ?xs. b64val c \<noteq> None"
    using vs by (auto simp add: b64val_b64char)
  have "map (\<lambda>c. the (b64val c)) ?xs = map (\<lambda>v. v) (sextets bs)"
    unfolding map_map using vs by (intro map_cong) (auto simp add: b64val_b64char)
  then have vals: "map (\<lambda>c. the (b64val c)) ?xs = sextets bs" by simp
  have "atob (b64_encode bs) = Inr (map of_nat (b64_decode (map (\<lambda>c. the (b64val c)) ?xs)))"
    using l ok unfolding atob_def Let_def t by (simp del: map_map)
  then show ?thesis
    by (simp only: vals b64_decode_sextets [OF assms])
qed


lemma base64_roundtrip:
  "\<exists>e. btoa (fromCharCode bytes) = Inr e \<and> e = b64_encode (map unat bytes) \<and>
       (\<exists>s. atob e = Inr s \<and> char_codes s = bytes)"
proof -
  have small: "\<forall>b\<in>set (map unat bytes). b < 256"
  proof
    fix b assume "b \<in> set (map unat bytes)"
    then obtain w :: byte where "b = unat w" by auto
    then show "b < 256" using unsigned_less [of w, where ?'a = nat] by simp
  qed
  have enc: "btoa (fromCharCode bytes) = Inr (b64_encode (map unat bytes))"
    using small by (auto simp add: btoa_def fromCharCode_def unat_ucast_byte o_def)
  have "char_codes (map of_nat (map unat bytes)) = bytes"
    by (simp add: char_codes_def o_def ucast_of_nat_byte ucast_ucast_byte)
  then show ?thesis
    using enc atob_b64_encode [OF small] by auto
qed

subsection \<open>UTF-8\<close>

lemma m32: "h < 32 \<Longrightarrow> (192 + h) mod 32 = (h::nat)"
  using mod_split [of h 32 6] by simp

lemma m64: "l < 64 \<Longrightarrow> (128 + l) mod 64 = (l::nat)"
  using mod_split [of l 64 2] by simp

lemma m16: "h < 16 \<Longrightarrow> (224 + h) mod 16 = (h::nat)"
  using mod_split [of h 16 14] by simp

lemma m8: "g < 8 \<Longrightarrow> (240 + g) mod 8 = (g::nat)"
  using mod_split [of g 8 30] by simp

lemma dec1: "c < 128 \<Longrightarrow> utf8_decode (c # rest) = c # utf8_decode rest"
  by simp

lemma dec2:
  assumes "2 \<le> h" "h < 32" "l < 64"
  shows "utf8_decode ((192 + h) # (128 + l) # rest) = (h * 64 + l) # utf8_decode rest"
  using assms by (simp add: m32 m64)

lemma dec3:
  assumes "h < 16" "m < 64" "l < 64" "h = 0 \<longrightarrow> 32 \<le> m" "h = 13 \<longrightarrow> m < 32"
  shows "utf8_decode ((224 + h) # (128 + m) # (128 + l) # rest) =
           ((h * 64 + m) * 64 + l) # utf8_decode rest"
  using assms by (auto simp add: m16 m64)

lemma dec4:
  assumes "g \<le> 4" "h < 64" "m < 64" "l < 64" "g = 0 \<longrightarrow> 16 \<le> h" "g = 4 \<longrightarrow> h < 16"
  shows "utf8_decode ((240 + g) # (128 + h) # (128 + m) # (128 + l) # rest) =
           (((g * 64 + h) * 64 + m) * 64 + l) # utf8_decode rest"
  using assms by (auto simp add: m8 m64)


lemma div4096: "(c::nat) div 4096 = c div 64 div 64"
  using div_mult2_eq [of c 64 64] by simp

lemma div262144: "(c::nat) div 262144 = c div 64 div 64 div 64"
  using div_mult2_eq [of c 4096 64] by (simp add: div4096)

lemma utf8_encode_scalar_cases:
  assumes "c < 0x110000" "\<not> (0xD800 \<le> c \<and> c \<le> 0xDFFF)"
  obtains
    (one) "c < 128" "map unat (utf8_encode_scalar c) = [c]"
  | (two) q l where "2 \<le> q" "q < 32" "l < 64" "c = q * 64 + l"
      "map unat (utf8_encode_scalar c) = [192 + q, 128 + l]"
  | (three) p m l where "p < 16" "m < 64" "l < 64" "p = 0 \<longrightarrow> 32 \<le> m" "p = 13 \<longrightarrow> m < 32"
      "c = (p * 64 + m) * 64 + l"
      "map unat (utf8_encode_scalar c) = [224 + p, 128 + m, 128 + l]"
  | (four) g h m l where "g \<le> 4" "h < 64" "m < 64" "l < 64" "g = 0 \<longrightarrow> 16 \<le> h" "g = 4 \<longrightarrow> h < 16"
      "c = ((g * 64 + h) * 64 + m) * 64 + l"
      "map unat (utf8_encode_scalar c) = [240 + g, 128 + h, 128 + m, 128 + l]"
proof -
  define q where "q = c div 64"
  define l where "l = c mod 64"
  define p where "p = q div 64"
  define m where "m = q mod 64"
  define g where "g = p div 64"
  define h where "h = p mod 64"
  have c: "c = q * 64 + l" and l: "l < 64" by (simp_all add: q_def l_def)
  have q: "q = p * 64 + m" and m: "m < 64" by (simp_all add: p_def m_def)
  have p: "p = g * 64 + h" and h: "h < 64" by (simp_all add: g_def h_def)
  consider (1) "c < 0x80" | (2) "0x80 \<le> c" "c < 0x800" | (3) "0x800 \<le> c" "c < 0x10000"
    | (4) "0x10000 \<le> c"
    by linarith
  then show ?thesis
  proof cases
    case 1
    then have "map unat (utf8_encode_scalar c) = [c]"
      by (simp add: utf8_encode_scalar_def unat_of_nat8)
    with 1 show ?thesis by (intro one) simp_all
  next
    case 2
    have b: "2 \<le> q" "q < 32" using 2 c l by linarith+
    have enc: "map unat (utf8_encode_scalar c) = [192 + q, 128 + l]"
      using 2 b l by (simp add: utf8_encode_scalar_def unat_of_nat8 q_def [symmetric] l_def [symmetric]
          del: of_nat_add)
    show ?thesis using b l c enc by (rule two)
  next
    case 3
    have b: "p < 16" "p = 0 \<longrightarrow> 32 \<le> m" "p = 13 \<longrightarrow> m < 32"
      using 3 assms(2) c q l m by linarith+
    have enc: "map unat (utf8_encode_scalar c) = [224 + p, 128 + m, 128 + l]"
      using 3 b m l
      by (simp add: utf8_encode_scalar_def unat_of_nat8 div4096 q_def [symmetric] l_def [symmetric]
          p_def [symmetric] m_def [symmetric] del: of_nat_add)
    have c': "c = (p * 64 + m) * 64 + l" using c q by simp
    show ?thesis using b(1) m l b(2,3) c' enc by (rule three)
  next
    case 4
    have b: "g \<le> 4" "g = 0 \<longrightarrow> 16 \<le> h" "g = 4 \<longrightarrow> h < 16"
      using 4 assms(1) c q p l m h by linarith+
    have enc: "map unat (utf8_encode_scalar c) = [240 + g, 128 + h, 128 + m, 128 + l]"
      using 4 b h m l
      by (simp add: utf8_encode_scalar_def unat_of_nat8 div4096 div262144 q_def [symmetric]
          l_def [symmetric] p_def [symmetric] m_def [symmetric] g_def [symmetric] h_def [symmetric]
          del: of_nat_add)
    have c': "c = ((g * 64 + h) * 64 + m) * 64 + l" using c q p by simp
    show ?thesis using b(1) h m l b(2,3) c' enc by (rule four)
  qed
qed

lemma decode_encode_scalar:
  assumes "c < 0x110000" "\<not> (0xD800 \<le> c \<and> c \<le> 0xDFFF)"
  shows "utf8_decode (map unat (utf8_encode_scalar c) @ rest) = c # utf8_decode rest"
  using assms
proof (cases c rule: utf8_encode_scalar_cases)
  case one
  then show ?thesis by simp
next
  case (two q l)
  then show ?thesis using dec2 [of q l rest] by simp
next
  case (three p m l)
  then show ?thesis using dec3 [of p m l rest] by simp
next
  case (four g h m l)
  then show ?thesis using dec4 [of g h m l rest] by simp
qed

lemma encode_scalar_bom:
  assumes "c < 0x110000" "\<not> (0xD800 \<le> c \<and> c \<le> 0xDFFF)"
    "take 3 (map unat (utf8_encode_scalar c) @ rest) = [0xEF, 0xBB, 0xBF]"
  shows "c = 0xFEFF"
  using assms(1,2)
proof (cases c rule: utf8_encode_scalar_cases)
  case one
  then show ?thesis using assms(3) by simp
next
  case (two q l)
  then show ?thesis using assms(3) by simp
next
  case (three p m l)
  then show ?thesis using assms(3) by simp
next
  case (four g h m l)
  then show ?thesis using assms(3) by simp
qed


lemma decode_encode_scalars:
  "\<forall>c\<in>set cs. valid_scalar c \<Longrightarrow>
   utf8_decode (map unat (concat (map utf8_encode_scalar cs))) = cs"
proof (induction cs)
  case Nil
  then show ?case by simp
next
  case (Cons c cs)
  then have "valid_scalar c" by simp
  then show ?case
    using Cons decode_encode_scalar [of c "map unat (concat (map utf8_encode_scalar cs))"]
    by (simp add: valid_scalar_def)
qed


lemma unat_jschar_bound: "unat (c :: jschar) < 65536"
  using unsigned_less [of c, where ?'a = nat] by simp

lemma plain_unit:
  assumes "\<not> is_high_surrogate c" "\<not> is_low_surrogate c"
  shows "valid_scalar (unat c)" "from_scalar (unat c) = [c]"
proof -
  have b: "unat c < 65536" by (rule unat_jschar_bound)
  show "valid_scalar (unat c)"
    using assms b by (auto simp add: valid_scalar_def is_high_surrogate_def is_low_surrogate_def)
  show "from_scalar (unat c) = [c]"
    using b by (simp add: from_scalar_def)
qed

lemma surrogate_pair:
  assumes "is_high_surrogate c" "is_low_surrogate d"
  shows "valid_scalar (0x10000 + (unat c - 0xD800) * 0x400 + (unat d - 0xDC00))"
    "from_scalar (0x10000 + (unat c - 0xD800) * 0x400 + (unat d - 0xDC00)) = [c, d]"
    "0x10000 \<le> 0x10000 + (unat c - 0xD800) * 0x400 + (unat d - 0xDC00)"
proof -
  define x where "x = unat c - 0xD800"
  define y where "y = unat d - 0xDC00"
  have x: "x < 0x400" "unat c = 0xD800 + x"
    using assms(1) unfolding x_def is_high_surrogate_def by linarith+
  have y: "y < 0x400" "unat d = 0xDC00 + y"
    using assms(2) unfolding y_def is_low_surrogate_def by linarith+
  have "x * 0x400 + y < 0x100000" using x(1) y(1) by linarith
  then show "valid_scalar (0x10000 + (unat c - 0xD800) * 0x400 + (unat d - 0xDC00))"
    by (simp add: valid_scalar_def x_def [symmetric] y_def [symmetric])
  have dm: "(x * 0x400 + y) div 0x400 = x" "(x * 0x400 + y) mod 0x400 = y"
    using y(1) by (simp_all add: div_split mod_split)
  have "from_scalar (0x10000 + x * 0x400 + y) =
      [of_nat (0xD800 + (x * 0x400 + y) div 0x400), of_nat (0xDC00 + (x * 0x400 + y) mod 0x400)]"
    by (simp add: from_scalar_def)
  also have "\<dots> = [of_nat (unat c), of_nat (unat d)]"
    by (simp only: dm x(2) y(2))
  also have "\<dots> = [c, d]" by simp
  finally show "from_scalar (0x10000 + (unat c - 0xD800) * 0x400 + (unat d - 0xDC00)) = [c, d]"
    by (simp add: x_def y_def)
  show "0x10000 \<le> 0x10000 + (unat c - 0xD800) * 0x400 + (unat d - 0xDC00)" by simp
qed

lemma replacement_valid: "valid_scalar 0xFFFD"
  by (simp add: valid_scalar_def)

lemma to_scalars_valid: "\<forall>c\<in>set (to_scalars s). valid_scalar c"
proof (induction s rule: to_scalars.induct)
  case 1
  then show ?case by simp
next
  case (2 c)
  then show ?case using plain_unit(1) [of c] replacement_valid by auto
next
  case (3 c d ds)
  then show ?case
    using plain_unit(1) [of c] surrogate_pair(1) [of c d] replacement_valid by auto
qed

lemma to_scalars_from_scalar:
  "well_formed s \<Longrightarrow> concat (map from_scalar (to_scalars s)) = s"
proof (induction s rule: to_scalars.induct)
  case 1
  then show ?case by simp
next
  case (2 c)
  then show ?case using plain_unit(2) [of c] by simp
next
  case (3 c d ds)
  show ?case
  proof (cases "is_high_surrogate c")
    case True
    then have d: "is_low_surrogate d" and wf: "well_formed ds" using "3.prems" by simp_all
    show ?thesis
      using True d wf "3.IH"(1) surrogate_pair(2) [OF True d] by simp
  next
    case False
    then have c: "\<not> is_low_surrogate c" and wf: "well_formed (d # ds)" using "3.prems" by simp_all
    show ?thesis
      using False c wf "3.IH"(4) plain_unit(2) [OF False c] by simp
  qed
qed

lemma unat_bom: "unat (c :: jschar) = 0xFEFF \<longleftrightarrow> c = 0xFEFF"
proof
  assume "unat c = 0xFEFF"
  then have "unat c = unat (0xFEFF :: jschar)" by simp
  then show "c = 0xFEFF" by (simp only: word_unat_eq_iff)
next
  assume "c = 0xFEFF"
  then show "unat c = 0xFEFF" by simp
qed

lemma to_scalars_hd:
  assumes "well_formed s" "s \<noteq> []" "hd s \<noteq> 0xFEFF"
  shows "to_scalars s \<noteq> [] \<and> hd (to_scalars s) \<noteq> 0xFEFF"
proof (cases s rule: to_scalars.cases)
  case 1
  then show ?thesis using assms(2) by simp
next
  case (2 c)
  then show ?thesis using assms by (simp add: unat_bom)
next
  case (3 c d ds)
  show ?thesis
  proof (cases "is_high_surrogate c")
    case True
    then have "is_low_surrogate d" using assms(1) 3 by simp
    then show ?thesis using True 3 surrogate_pair(3) [of c d] by simp
  next
    case False
    then show ?thesis using assms 3 by (simp add: unat_bom)
  qed
qed

lemma encode_no_bom:
  assumes "well_formed s" "s = [] \<or> hd s \<noteq> 0xFEFF"
  shows "take 3 (TextEncoder_encode s) \<noteq> [0xEF, 0xBB, 0xBF]"
proof
  assume bom: "take 3 (TextEncoder_encode s) = [0xEF, 0xBB, 0xBF]"
  then have ne: "s \<noteq> []" by (auto simp add: TextEncoder_encode_def)
  with assms(2) have "hd s \<noteq> 0xFEFF" by simp
  from to_scalars_hd [OF assms(1) ne this]
  obtain c cs where cs: "to_scalars s = c # cs" "c \<noteq> 0xFEFF"
    by (cases "to_scalars s") auto
  have v: "valid_scalar c" using to_scalars_valid [of s] cs(1) by simp
  have "map unat (take 3 (TextEncoder_encode s)) = [0xEF, 0xBB, 0xBF]"
    by (simp add: bom)
  then have "take 3 (map unat (utf8_encode_scalar c) @ map unat (concat (map utf8_encode_scalar cs))) =
      [0xEF, 0xBB, 0xBF]"
    by (simp add: TextEncoder_encode_def cs(1) take_map)
  then have "c = 0xFEFF"
    using v encode_scalar_bom [of c] by (simp add: valid_scalar_def)
  then show False using cs(2) by simp
qed

lemma text_roundtrip:
  assumes "well_formed s" "s = [] \<or> hd s \<noteq> 0xFEFF"
  shows "TextDecoder_decode (TextEncoder_encode s) = s"
proof -
  have "utf8_decode (map unat (TextEncoder_encode s)) = to_scalars s"
    unfolding TextEncoder_encode_def using to_scalars_valid by (rule decode_encode_scalars)
  then show ?thesis
    using encode_no_bom [OF assms] to_scalars_from_scalar [OF assms(1)]
    by (simp add: TextDecoder_decode_def)
qed


subsection \<open>encryptApiKey, decryptApiKey and the key service\<close>

lemma btoa_bytes: "btoa (fromCharCode bytes) = Inr (b64_encode (map unat bytes))"
  using base64_roundtrip [of bytes] by auto

lemma atob_bytes: "\<exists>s. atob (b64_encode (map unat bytes)) = Inr s \<and> char_codes s = bytes"
  using base64_roundtrip [of bytes] by auto

lemma length_getRandomValues [simp]: "length (getRandomValues c n) = n"
  by (simp add: getRandomValues_def)

lemma encryptApiKey_Inr:
  "encryptApiKey c apiKey userId = Inr enc \<longleftrightarrow>
     (\<exists>key ct. deriveKey c userId = Some key \<and>
        aes_gcm_encrypt c key (getRandomValues c 12) (TextEncoder_encode apiKey) = Some ct \<and>
        enc = b64_encode (map unat (getRandomValues c 12 @ ct)))"
  by (auto simp add: encryptApiKey_def Let_def btoa_bytes split: option.splits)

lemma decrypt_encoded:
  assumes "deriveKey c userId = Some key" "length iv = 12"
    "aes_gcm_decrypt c key iv ct = Some dat"
  shows "decryptApiKey c (b64_encode (map unat (iv @ ct))) userId = Inr (TextDecoder_decode dat)"
proof -
  from atob_bytes [of "iv @ ct"] obtain s where
    s: "atob (b64_encode (map unat (iv @ ct))) = Inr s" "char_codes s = iv @ ct"
    by blast
  show ?thesis
    using assms s by (simp add: decryptApiKey_def Let_def)
qed

lemma decrypt_encrypt:
  assumes rt: "\<forall>key iv dat ct. aes_gcm_encrypt c key iv dat = Some ct \<longrightarrow>
                 aes_gcm_decrypt c key iv ct = Some dat"
    and enc: "encryptApiKey c apiKey userId = Inr enc"
  shows "decryptApiKey c enc userId = Inr (TextDecoder_decode (TextEncoder_encode apiKey))"
proof -
  from enc obtain key ct where
    k: "deriveKey c userId = Some key"
    and e: "aes_gcm_encrypt c key (getRandomValues c 12) (TextEncoder_encode apiKey) = Some ct"
    and v: "enc = b64_encode (map unat (getRandomValues c 12 @ ct))"
    by (auto simp add: encryptApiKey_Inr)
  from rt e have d: "aes_gcm_decrypt c key (getRandomValues c 12) ct = Some (TextEncoder_encode apiKey)"
    by blast
  show ?thesis
    unfolding v using k _ d by (rule decrypt_encoded) simp
qed

lemma length_b64_encode: "length bs \<le> length (b64_encode bs)"
proof -
  have "3 * length bs div 3 \<le> (4 * length bs + 2) div 3"
    by (rule div_le_mono) simp
  then show ?thesis by (simp add: b64_encode_def length_sextets)
qed


lemma enc_nonempty:
  assumes "encryptApiKey c apiKey userId = Inr enc"
  shows "enc \<noteq> []"
proof -
  from assms obtain ct where v: "enc = b64_encode (map unat (getRandomValues c 12 @ ct))"
    by (auto simp add: encryptApiKey_Inr)
  have "12 + length ct \<le> length enc"
    unfolding v using length_b64_encode [of "map unat (getRandomValues c 12 @ ct)"] by simp
  then show ?thesis by auto
qed

lemma saveApiKey_failed_encrypt:
  assumes "encryptApiKey c apiKey userId = Inl e"
  shows "snd (saveApiKey c be tbl userId apiKey) = (tbl, [])"
    "\<not> success (fst (saveApiKey c be tbl userId apiKey))"
  using assms by (simp_all add: saveApiKey_def)

lemma saveApiKey_encrypted:
  assumes "encryptApiKey c apiKey userId = Inr enc"
  shows "snd (snd (saveApiKey c be tbl userId apiKey)) = [Update userId enc] \<or>
         snd (snd (saveApiKey c be tbl userId apiKey)) = [Insert userId enc]"
    and "fst (snd (saveApiKey c be tbl userId apiKey)) = tbl \<or>
         fst (snd (saveApiKey c be tbl userId apiKey)) = tbl(userId \<mapsto> enc)"
    and "success (fst (saveApiKey c be tbl userId apiKey)) \<Longrightarrow>
         fst (snd (saveApiKey c be tbl userId apiKey)) = tbl(userId \<mapsto> enc)"
    and "select_fault be = None \<Longrightarrow>
         snd (snd (saveApiKey c be tbl userId apiKey)) =
           (if tbl userId = None then [Insert userId enc] else [Update userId enc])"
  using assms
  by (auto simp add: saveApiKey_def select_single_def db_update_def db_insert_def
      split: option.splits if_splits)

lemma key_char_plain:
  assumes "is_key_char c"
  shows "\<not> is_high_surrogate c" "\<not> is_low_surrogate c" "c \<noteq> 0xFEFF"
proof -
  have b: "unat c \<le> 122" using assms by (auto simp add: is_key_char_def Let_def)
  show "\<not> is_high_surrogate c" using b by (simp add: is_high_surrogate_def)
  show "\<not> is_low_surrogate c" using b by (simp add: is_low_surrogate_def)
  show "c \<noteq> 0xFEFF" using b by auto
qed

lemma key_chars_well_formed: "list_all is_key_char s \<Longrightarrow> well_formed s"
  by (induction s rule: well_formed.induct) (auto dest: key_char_plain)

lemma valid_format_roundtrips:
  assumes "validateApiKeyFormat k"
  shows "well_formed k" "k = [] \<or> hd k \<noteq> 0xFEFF"
proof -
  from assms have a: "list_all is_key_char k" "k \<noteq> []"
    by (simp_all add: validateApiKeyFormat_def)
  show "well_formed k" using a(1) by (rule key_chars_well_formed)
  from a obtain c cs where "k = c # cs" "is_key_char c" by (cases k) auto
  then show "k = [] \<or> hd k \<noteq> 0xFEFF" using key_char_plain(3) [of c] by simp
qed

lemma encode_bom: "utf8_encode_scalar 0xFEFF = [0xEF, 0xBB, 0xBF]"
  by (simp add: utf8_encode_scalar_def)

lemma to_scalars_bom: "to_scalars (0xFEFF # s) = 0xFEFF # to_scalars s"
  by (cases s) (simp_all add: is_high_surrogate_def is_low_surrogate_def)

lemma text_bom_dropped:
  assumes "well_formed s"
  shows "TextDecoder_decode (TextEncoder_encode (0xFEFF # s)) = s"
proof -
  have e: "TextEncoder_encode (0xFEFF # s) = [0xEF, 0xBB, 0xBF] @ TextEncoder_encode s"
    by (simp add: TextEncoder_encode_def to_scalars_bom encode_bom)
  have "utf8_decode (map unat (TextEncoder_encode s)) = to_scalars s"
    unfolding TextEncoder_encode_def using to_scalars_valid by (rule decode_encode_scalars)
  then show ?thesis
    using to_scalars_from_scalar [OF assms] by (simp add: TextDecoder_decode_def e)
qed

lemma toy_roundtrip:
  "\<forall>key iv dat ct. aes_gcm_encrypt toy_crypto key iv dat = Some ct \<longrightarrow>
     aes_gcm_decrypt toy_crypto key iv ct = Some dat"
proof -
  have "map (\<lambda>b. b XOR 0x5A) (map (\<lambda>b. b XOR 0x5A) dat) = dat" for dat :: "byte list"
    by (induction dat) (simp_all add: xor.assoc)
  then show ?thesis by (auto simp add: toy_crypto_def o_def)
qed


lemma toy_encrypts: "\<exists>enc. encryptApiKey toy_crypto apiKey userId = Inr enc"
  by (simp add: encryptApiKey_Inr deriveKey_def toy_crypto_def)

lemma toy_saves:
  "success (fst (saveApiKey toy_crypto reachable tbl userId apiKey))"
proof -
  obtain enc where "encryptApiKey toy_crypto apiKey userId = Inr enc"
    using toy_encrypts by blast
  then show ?thesis
    by (simp add: saveApiKey_def select_single_def db_update_def db_insert_def reachable_def
        split: option.splits)
qed

lemma example_key_valid: "validateApiKeyFormat (js ''sk_live_0123456789abcdef'')"
  by (simp add: validateApiKeyFormat_def is_key_char_def js_def)

lemma bom_key_encoded: "TextEncoder_encode [0xFEFF, 0x61] = [0xEF, 0xBB, 0xBF, 0x61]"
  by (simp add: TextEncoder_encode_def to_scalars_bom encode_bom utf8_encode_scalar_def
      is_high_surrogate_def is_low_surrogate_def)

lemma toy_iv: "getRandomValues toy_crypto 12 = [0, 1, 2, 3, 4, 5, 6, 7, 8, 9, 10, 11]"
  by (simp add: getRandomValues_def toy_crypto_def upt_rec)

lemma bom_key_cipher:
  "aes_gcm_encrypt toy_crypto key iv [0xEF, 0xBB, 0xBF, 0x61] =
     Some [0xB5, 0xE1, 0xE5, 0x3B, 0, 0, 0, 0, 0, 0, 0, 0, 0, 0, 0, 0, 0, 0, 0, 0]"
  by (simp add: toy_crypto_def numeral_eq_Suc)

lemma bom_key_base64:
  "b64_encode [0, 1, 2, 3, 4, 5, 6, 7, 8, 9, 10, 11,
      0xB5, 0xE1, 0xE5, 0x3B, 0, 0, 0, 0, 0, 0, 0, 0, 0, 0, 0, 0, 0, 0, 0, 0] =
   js ''AAECAwQFBgcICQoLteHlOwAAAAAAAAAAAAAAAAAAAAA=''"
  by (simp add: b64_encode_def b64char_def js_def)

lemma bom_key_encrypted:
  "encryptApiKey toy_crypto [0xFEFF, 0x61] (js ''user-1'') =
     Inr (js ''AAECAwQFBgcICQoLteHlOwAAAAAAAAAAAAAAAAAAAAA='')"
proof -
  have k: "deriveKey toy_crypto (js ''user-1'') = Some (TextEncoder_encode (js ''user-1''))"
    by (simp add: deriveKey_def toy_crypto_def)
  have "map unat (getRandomValues toy_crypto 12 @
      [0xB5, 0xE1, 0xE5, 0x3B, 0, 0, 0, 0, 0, 0, 0, 0, 0, 0, 0, 0, 0, 0, 0, 0 :: byte]) =
    [0, 1, 2, 3, 4, 5, 6, 7, 8, 9, 10, 11,
      0xB5, 0xE1, 0xE5, 0x3B, 0, 0, 0, 0, 0, 0, 0, 0, 0, 0, 0, 0, 0, 0, 0, 0]"
    by (simp add: toy_iv)
  then show ?thesis
    using k bom_key_cipher [of "TextEncoder_encode (js ''user-1'')" "getRandomValues toy_crypto 12"] bom_key_base64
    by (simp add: encryptApiKey_Inr bom_key_encoded)
qed




text \<open>
  Claim C2, as the code has it. On a platform whose \<open>decrypt\<close> undoes its \<open>encrypt\<close>, for
  a key in which every surrogate is part of a pair and which does not begin with U+FEFF
  (in particular for every key that \<open>validateApiKeyFormat\<close> accepts, the only keys the
  settings page saves), decrypting the result of \<open>encryptApiKey\<close> with the same \<open>userId\<close>
  gives the key back, and \<open>getApiKey\<close> after a successful \<open>saveApiKey\<close> returns it when
  the backend answers the select.
\<close>

theorem decryptApiKey_recovers_key:
  fixes c :: "'k crypto"
  assumes rt: "\<forall>key iv dat ct. aes_gcm_encrypt c key iv dat = Some ct \<longrightarrow>
                 aes_gcm_decrypt c key iv ct = Some dat"
    and key: "validateApiKeyFormat apiKey \<or>
              well_formed apiKey \<and> (apiKey = [] \<or> hd apiKey \<noteq> 0xFEFF)"
  shows
    "(encryptApiKey c apiKey userId = Inr enc \<longrightarrow> decryptApiKey c enc userId = Inr apiKey) \<and>
     (success (fst (saveApiKey c be tbl userId apiKey)) \<and> select_fault be' = None \<longrightarrow>
        getApiKey c be' (fst (snd (saveApiKey c be tbl userId apiKey))) userId =
          \<lparr>apiKey_of = Some apiKey, get_error = None\<rparr>)"
proof -
  from key have wf: "well_formed apiKey" and nb: "apiKey = [] \<or> hd apiKey \<noteq> 0xFEFF"
    using valid_format_roundtrips by blast+
  have trip: "TextDecoder_decode (TextEncoder_encode apiKey) = apiKey"
    using wf nb by (rule text_roundtrip)
  have dec: "decryptApiKey c e userId = Inr apiKey" if "encryptApiKey c apiKey userId = Inr e" for e
    using decrypt_encrypt [OF rt that] by (simp add: trip)
  have get: "getApiKey c be' (fst (snd (saveApiKey c be tbl userId apiKey))) userId =
          \<lparr>apiKey_of = Some apiKey, get_error = None\<rparr>"
    if ok: "success (fst (saveApiKey c be tbl userId apiKey))" and sel: "select_fault be' = None"
  proof (cases "encryptApiKey c apiKey userId")
    case (Inl e)
    then show ?thesis using saveApiKey_failed_encrypt(2) [OF Inl, of be tbl] ok by simp
  next
    case (Inr e)
    have t: "fst (snd (saveApiKey c be tbl userId apiKey)) = tbl(userId \<mapsto> e)"
      using saveApiKey_encrypted(3) [OF Inr ok] .
    show ?thesis
      using sel enc_nonempty [OF Inr] dec [OF Inr]
      by (simp add: getApiKey_def select_single_def t)
  qed
  from dec get show ?thesis by blast
qed

theorem decryptApiKey_recovers_key_witness:
  "(\<exists>enc. encryptApiKey toy_crypto (js ''sk_live_0123456789abcdef'') (js ''user-1'') = Inr enc \<and>
      decryptApiKey toy_crypto enc (js ''user-1'') = Inr (js ''sk_live_0123456789abcdef'')) \<and>
   getApiKey toy_crypto reachable
     (fst (snd (saveApiKey toy_crypto reachable Map.empty (js ''user-1'')
        (js ''sk_live_0123456789abcdef'')))) (js ''user-1'') =
     \<lparr>apiKey_of = Some (js ''sk_live_0123456789abcdef''), get_error = None\<rparr>"
proof -
  have k: "validateApiKeyFormat (js ''sk_live_0123456789abcdef'') \<or>
      well_formed (js ''sk_live_0123456789abcdef'') \<and>
      (js ''sk_live_0123456789abcdef'' = [] \<or> hd (js ''sk_live_0123456789abcdef'') \<noteq> 0xFEFF)"
    using example_key_valid by simp
  obtain enc where e: "encryptApiKey toy_crypto (js ''sk_live_0123456789abcdef'') (js ''user-1'') = Inr enc"
    using toy_encrypts by blast
  have s: "select_fault reachable = None" by (simp add: reachable_def)
  note T = decryptApiKey_recovers_key [OF toy_roundtrip k, of "js ''user-1''" enc reachable
      Map.empty reachable]
  show ?thesis
    using T e toy_saves [of Map.empty "js ''user-1''" "js ''sk_live_0123456789abcdef''"] s by blast
qed

text \<open>Claim C2 as stated is for every string. \<open>TextDecoder\<close> drops a byte order mark
  at the start of its input, so a key that begins with U+FEFF comes back without it.\<close>

theorem decryptApiKey_bom_counterexample:
  "encryptApiKey toy_crypto [0xFEFF, 0x61] (js ''user-1'') =
     Inr (js ''AAECAwQFBgcICQoLteHlOwAAAAAAAAAAAAAAAAAAAAA='') \<and>
   decryptApiKey toy_crypto (js ''AAECAwQFBgcICQoLteHlOwAAAAAAAAAAAAAAAAAAAAA='') (js ''user-1'') =
     Inr [0x61] \<and>
   [0x61] \<noteq> [0xFEFF, 0x61 :: jschar]"
proof -
  have w: "well_formed [0x61]"
    by (simp add: is_high_surrogate_def is_low_surrogate_def)
  have "decryptApiKey toy_crypto (js ''AAECAwQFBgcICQoLteHlOwAAAAAAAAAAAAAAAAAAAAA='') (js ''user-1'') =
      Inr (TextDecoder_decode (TextEncoder_encode [0xFEFF, 0x61]))"
    using toy_roundtrip bom_key_encrypted by (rule decrypt_encrypt)
  then show ?thesis
    using bom_key_encrypted text_bom_dropped [OF w] by simp
qed

end
